theory Spec2Isabelle
  imports Main "HOL-Library.Sublist" "HOL-Library.Multiset"
begin

section \<open>Strings of the program\<close>

text \<open>
  The program is Python 3: its strings are sequences of Unicode code points. A \<^typ>\<open>char\<close>
  of this development stands for the code point of the same number, so the strings covered
  are those whose code points lie below 256. The classes below are the ones Python assigns
  to these code points: \<^verbatim>\<open>str.isspace\<close> (which is also \<^verbatim>\<open>\s\<close> of the module
  \<^verbatim>\<open>re\<close> on \<^verbatim>\<open>str\<close> patterns), \<^verbatim>\<open>\w\<close> (alphanumeric or underscore) and
  \<^verbatim>\<open>str.lower\<close>.
\<close>

definition whitespace :: string where
  "whitespace = [CHR 0x09, CHR 0x0A, CHR 0x0B, CHR 0x0C, CHR 0x0D, CHR 0x1C, CHR 0x1D,
     CHR 0x1E, CHR 0x1F, CHR 0x20, CHR 0x85, CHR 0xA0]"

definition isspace :: "char \<Rightarrow> bool" where
  "isspace c = (c \<in> set whitespace)"

definition upper_chars :: string where
  "upper_chars = ''ABCDEFGHIJKLMNOPQRSTUVWXYZ'' @
     [CHR 0xC0, CHR 0xC1, CHR 0xC2, CHR 0xC3, CHR 0xC4, CHR 0xC5, CHR 0xC6, CHR 0xC7,
      CHR 0xC8, CHR 0xC9, CHR 0xCA, CHR 0xCB, CHR 0xCC, CHR 0xCD, CHR 0xCE, CHR 0xCF,
      CHR 0xD0, CHR 0xD1, CHR 0xD2, CHR 0xD3, CHR 0xD4, CHR 0xD5, CHR 0xD6,
      CHR 0xD8, CHR 0xD9, CHR 0xDA, CHR 0xDB, CHR 0xDC, CHR 0xDD, CHR 0xDE]"

definition lower_chars :: string where
  "lower_chars = ''abcdefghijklmnopqrstuvwxyz'' @
     [CHR 0xE0, CHR 0xE1, CHR 0xE2, CHR 0xE3, CHR 0xE4, CHR 0xE5, CHR 0xE6, CHR 0xE7,
      CHR 0xE8, CHR 0xE9, CHR 0xEA, CHR 0xEB, CHR 0xEC, CHR 0xED, CHR 0xEE, CHR 0xEF,
      CHR 0xF0, CHR 0xF1, CHR 0xF2, CHR 0xF3, CHR 0xF4, CHR 0xF5, CHR 0xF6,
      CHR 0xF8, CHR 0xF9, CHR 0xFA, CHR 0xFB, CHR 0xFC, CHR 0xFD, CHR 0xFE]"

text \<open>The word characters below 256 that are neither ASCII nor cased as above.\<close>

definition other_word_chars :: string where
  "other_word_chars = [CHR 0xAA, CHR 0xB2, CHR 0xB3, CHR 0xB5, CHR 0xB9, CHR 0xBA, CHR 0xBC,
     CHR 0xBD, CHR 0xBE, CHR 0xDF, CHR 0xFF]"

definition isword :: "char \<Rightarrow> bool" where
  "isword c = (c \<in> set (''0123456789_'' @ upper_chars @ lower_chars @ other_word_chars))"

definition lower_char :: "char \<Rightarrow> char" where
  "lower_char c = (case map_of (zip upper_chars lower_chars) c of None \<Rightarrow> c | Some l \<Rightarrow> l)"

text \<open>\<^verbatim>\<open>s.lower()\<close>\<close>

definition lower :: "string \<Rightarrow> string" where
  "lower s = map lower_char s"

text \<open>\<^verbatim>\<open>s.strip()\<close> and \<^verbatim>\<open>s.strip(chars)\<close>\<close>

definition strip_chars :: "(char \<Rightarrow> bool) \<Rightarrow> string \<Rightarrow> string" where
  "strip_chars P s = rev (dropWhile P (rev (dropWhile P s)))"

definition strip :: "string \<Rightarrow> string" where
  "strip s = strip_chars isspace s"

text \<open>\<^verbatim>\<open>s.split(sep)\<close> for a separator of one character: never an empty list.\<close>

fun split :: "char \<Rightarrow> string \<Rightarrow> string list" where
  "split sep [] = [[]]"
| "split sep (c # cs) =
     (if c = sep then [] # split sep cs
      else (case split sep cs of p # ps \<Rightarrow> (c # p) # ps | [] \<Rightarrow> [[c]]))"

text \<open>\<^verbatim>\<open>s.startswith(p)\<close> is \<^const>\<open>prefix\<close>.\<close>

section \<open>The regular expressions of the program\<close>

text \<open>
  Every pattern of the source is a sequence of single-character atoms, each with a greedy
  quantifier, and at most one capturing group, which encloses one quantified atom. The
  matcher below is the backtracking search of the module \<^verbatim>\<open>re\<close> for such patterns:
  a quantified atom first takes as many characters as it can and gives them back one at a
  time when the rest of the pattern fails.
\<close>

datatype cset = Ch char | Sp | Wd

datatype atom = Lit char | Dot | In "cset list" | NotIn "cset list"

datatype quant = One | Opt | Star | Plus

datatype item = It atom quant | Grp atom quant

record re_flags =
  IGNORECASE :: bool
  DOTALL :: bool

definition no_flags :: re_flags where
  "no_flags = \<lparr>IGNORECASE = False, DOTALL = False\<rparr>"

fun cset_mem :: "cset \<Rightarrow> char \<Rightarrow> bool" where
  "cset_mem (Ch d) c = (c = d)"
| "cset_mem Sp c = isspace c"
| "cset_mem Wd c = isword c"

fun atom_match :: "re_flags \<Rightarrow> atom \<Rightarrow> char \<Rightarrow> bool" where
  "atom_match fl (Lit d) c = (if IGNORECASE fl then lower_char c = lower_char d else c = d)"
| "atom_match fl Dot c = (DOTALL fl \<or> c \<noteq> CHR 0x0A)"
| "atom_match fl (In ks) c = list_ex (\<lambda>k. cset_mem k c) ks"
| "atom_match fl (NotIn ks) c = (\<not> list_ex (\<lambda>k. cset_mem k c) ks)"

fun atom_of :: "item \<Rightarrow> atom" where
  "atom_of (It a q) = a"
| "atom_of (Grp a q) = a"

fun quant_of :: "item \<Rightarrow> quant" where
  "quant_of (It a q) = q"
| "quant_of (Grp a q) = q"

fun is_group :: "item \<Rightarrow> bool" where
  "is_group (It a q) = False"
| "is_group (Grp a q) = True"

text \<open>A literal piece of a pattern.\<close>

definition lit :: "string \<Rightarrow> item list" where
  "lit s = map (\<lambda>c. It (Lit c) One) s"

text \<open>Put a character in front of the text of the first item.\<close>

fun push :: "char \<Rightarrow> string list \<times> string \<Rightarrow> string list \<times> string" where
  "push c (m # ms, rest) = ((c # m) # ms, rest)"
| "push c ([], rest) = ([[c]], rest)"

fun skip :: "string list \<times> string \<Rightarrow> string list \<times> string" where
  "skip (ms, rest) = ([] # ms, rest)"

fun single :: "char \<Rightarrow> string list \<times> string \<Rightarrow> string list \<times> string" where
  "single c (ms, rest) = ([c] # ms, rest)"

text \<open>
  \<open>rmatch fl p s\<close> matches the pattern \<open>p\<close> at the start of \<open>s\<close>. The result is the text
  taken by each item of the pattern, in order, and the input left after the match.
\<close>

function rmatch :: "re_flags \<Rightarrow> item list \<Rightarrow> string \<Rightarrow> (string list \<times> string) option" where
  "rmatch fl [] s = Some ([], s)"
| "rmatch fl (i # p) [] =
     (if quant_of i = Opt \<or> quant_of i = Star then map_option skip (rmatch fl p []) else None)"
| "rmatch fl (i # p) (c # cs) =
     (if atom_match fl (atom_of i) c then
        (case quant_of i of
           One \<Rightarrow> map_option (single c) (rmatch fl p cs)
         | Opt \<Rightarrow> (case rmatch fl p cs of
                     Some r \<Rightarrow> Some (single c r)
                   | None \<Rightarrow> map_option skip (rmatch fl p (c # cs)))
         | Star \<Rightarrow> (case rmatch fl (i # p) cs of
                      Some r \<Rightarrow> Some (push c r)
                    | None \<Rightarrow> map_option skip (rmatch fl p (c # cs)))
         | Plus \<Rightarrow> (case rmatch fl (It (atom_of i) Star # p) cs of
                      Some r \<Rightarrow> Some (push c r)
                    | None \<Rightarrow> None))
      else if quant_of i = Opt \<or> quant_of i = Star
        then map_option skip (rmatch fl p (c # cs)) else None)"
  by pat_completeness auto
termination
  by (relation "measure (\<lambda>(fl, p, s). length p + length s)") auto

text \<open>
  \<^verbatim>\<open>re.search\<close>: the first position, from the left, where the pattern matches. The result
  is the input before the match, the text of each item, and the input after the match.
\<close>

fun re_search :: "re_flags \<Rightarrow> item list \<Rightarrow> string \<Rightarrow> (string \<times> string list \<times> string) option" where
  "re_search fl p [] = map_option (\<lambda>(ms, rest). ([], ms, rest)) (rmatch fl p [])"
| "re_search fl p (c # cs) =
     (case rmatch fl p (c # cs) of
        Some (ms, rest) \<Rightarrow> Some ([], ms, rest)
      | None \<Rightarrow> map_option (\<lambda>(pre, ms, rest). (c # pre, ms, rest)) (re_search fl p cs))"

text \<open>\<^verbatim>\<open>m.group(1)\<close>: the text of the capturing group of the pattern.\<close>

fun group1 :: "item list \<Rightarrow> string list \<Rightarrow> string" where
  "group1 (i # p) (m # ms) = (if is_group i then m else group1 p ms)"
| "group1 p ms = []"

text \<open>\<^verbatim>\<open>m.group(0)\<close>: the whole match.\<close>

definition group0 :: "string list \<Rightarrow> string" where
  "group0 ms = concat ms"

text \<open>
  \<^verbatim>\<open>re.finditer\<close> and \<^verbatim>\<open>re.sub\<close> for patterns that match no empty string, as all
  patterns have that the program gives to them: the search goes on where the last match
  ended.
\<close>

function re_finditer :: "re_flags \<Rightarrow> item list \<Rightarrow> string \<Rightarrow> string list list" where
  "re_finditer fl p s =
     (case re_search fl p s of
        None \<Rightarrow> []
      | Some (pre, ms, rest) \<Rightarrow>
          if length rest < length s then ms # re_finditer fl p rest else [ms])"
  by pat_completeness auto
termination
  by (relation "measure (\<lambda>(fl, p, s). length s)") auto

declare re_finditer.simps [simp del]

function re_sub :: "re_flags \<Rightarrow> item list \<Rightarrow> string \<Rightarrow> string \<Rightarrow> string" where
  "re_sub fl p repl s =
     (case re_search fl p s of
        None \<Rightarrow> s
      | Some (pre, ms, rest) \<Rightarrow>
          if length rest < length s then pre @ repl @ re_sub fl p repl rest
          else pre @ repl @ rest)"
  by pat_completeness auto
termination
  by (relation "measure (\<lambda>(fl, p, repl, s). length s)") auto

declare re_sub.simps [simp del]

section \<open>Data model\<close>

datatype FontCategory = SERIF | SANS_SERIF | MONOSPACE | DISPLAY | UNKNOWN

record FontFace =
  family :: string
  url :: string
  weight :: string
  style :: string
  format :: "string option"
  category :: FontCategory

section \<open>Post-processing\<close>

text \<open>
  \<^verbatim>\<open>deduplicate_fonts\<close>: one pass over \<open>fonts\<close> with the set \<open>seen_urls\<close> and the list
  \<open>unique\<close> as the state of the loop.
\<close>

fun deduplicate_loop :: "string set \<Rightarrow> FontFace list \<Rightarrow> FontFace list \<Rightarrow> FontFace list" where
  "deduplicate_loop seen_urls unique [] = unique"
| "deduplicate_loop seen_urls unique (font # fonts) =
     (if url font \<notin> seen_urls
      then deduplicate_loop (insert (url font) seen_urls) (unique @ [font]) fonts
      else deduplicate_loop seen_urls unique fonts)"

definition deduplicate_fonts :: "FontFace list \<Rightarrow> FontFace list" where
  "deduplicate_fonts fonts = deduplicate_loop {} [] fonts"

text \<open>\<^verbatim>\<open>filter_fonts\<close>: \<open>None\<close> stands for all categories.\<close>

definition filter_fonts :: "FontFace list \<Rightarrow> FontCategory set option \<Rightarrow> FontFace list" where
  "filter_fonts fonts categories =
     (case categories of
        None \<Rightarrow> fonts
      | Some cs \<Rightarrow> filter (\<lambda>f. category f \<in> cs) fonts)"

text \<open>
  The description of deduplication in words, as a definition of its own: the entries of the
  list no earlier entry of which has the same url.
\<close>

definition first_occurrences :: "FontFace list \<Rightarrow> FontFace list" where
  "first_occurrences fonts =
     map snd (filter (\<lambda>(i, f). url f \<notin> url ` set (take i fonts)) (enumerate 0 fonts))"

text \<open>The loop, as a function of the urls seen so far.\<close>

fun unseen :: "string set \<Rightarrow> FontFace list \<Rightarrow> FontFace list" where
  "unseen seen [] = []"
| "unseen seen (f # fs) =
     (if url f \<in> seen then unseen seen fs else f # unseen (insert (url f) seen) fs)"



section \<open>What a pattern accepts\<close>

text \<open>
  The meaning of a pattern without reference to the search: a list of texts, one for each
  item, is accepted when every character of a text matches the atom of its item and the
  length of the text is one that the quantifier allows. A text contains the pattern when some
  part of it is the concatenation of an accepted list.
\<close>

fun quant_ok :: "quant \<Rightarrow> nat \<Rightarrow> bool" where
  "quant_ok One n = (n = 1)"
| "quant_ok Opt n = (n \<le> 1)"
| "quant_ok Star n = True"
| "quant_ok Plus n = (1 \<le> n)"

fun accepts :: "re_flags \<Rightarrow> item list \<Rightarrow> string list \<Rightarrow> bool" where
  "accepts fl [] [] = True"
| "accepts fl (i # p) (m # ms) =
     (list_all (atom_match fl (atom_of i)) m \<and> quant_ok (quant_of i) (length m) \<and> accepts fl p ms)"
| "accepts fl [] (m # ms) = False"
| "accepts fl (i # p) [] = False"

definition contains :: "re_flags \<Rightarrow> item list \<Rightarrow> string \<Rightarrow> bool" where
  "contains fl p s = (\<exists>before ms after. s = before @ concat ms @ after \<and> accepts fl p ms)"


text \<open>\<^verbatim>\<open>m.group(1)\<close> of the result of \<^verbatim>\<open>re.search\<close>, if there is a match.\<close>

definition search_group :: "re_flags \<Rightarrow> item list \<Rightarrow> string \<Rightarrow> string option" where
  "search_group fl p s = map_option (\<lambda>(before, ms, rest). group1 p ms) (re_search fl p s)"

section \<open>Collaborators\<close>

text \<open>
  The program calls three libraries whose code is not part of it: \<^verbatim>\<open>urllib.parse\<close> to
  resolve and to split URLs, \<^verbatim>\<open>cssutils\<close> to parse a style sheet, and an HTTP client
  together with the file system to fetch and to store a font. They are parameters of the
  model. Each of them can raise, so each returns an error or a value. A parsed style sheet is
  the list of its top-level rules; a font-face rule is the list of its properties, each a name
  and a value, in the order of the source text.
\<close>

datatype py_error = Exception string

datatype css_rule = CSSFontFaceRule "(string \<times> string) list" | CSSOtherRule

record libs =
  urljoin :: "string \<Rightarrow> string \<Rightarrow> py_error + string"
  urlparse_path :: "string \<Rightarrow> py_error + string"
  parseString :: "string \<Rightarrow> py_error + css_rule list"
  client_get :: "string \<Rightarrow> py_error + string"
  write_bytes :: "string \<Rightarrow> string \<Rightarrow> py_error + unit"

text \<open>
  \<^verbatim>\<open>pathlib\<close> is modelled as it computes on POSIX: the name of a path is its last
  component that is neither empty nor a single dot, and the suffix of a name starts at its
  last dot, unless that dot is the first or the last character of the name.
\<close>

definition path_name :: "string \<Rightarrow> string" where
  "path_name p =
     (case filter (\<lambda>x. x \<noteq> [] \<and> x \<noteq> ''.'') (split CHR ''/'' p) of
        [] \<Rightarrow> []
      | x # xs \<Rightarrow> last (x # xs))"

definition name_suffix :: "string \<Rightarrow> string" where
  "name_suffix name =
     (let after = length (takeWhile (\<lambda>c. c \<noteq> CHR ''.'') (rev name));
          i = length name - after - 1
      in if CHR ''.'' \<in> set name \<and> 0 < i \<and> i < length name - 1 then drop i name else [])"

definition path_suffix :: "string \<Rightarrow> string" where
  "path_suffix p = name_suffix (path_name p)"

section \<open>Category classifier\<close>

abbreviation dquote :: char where
  "dquote \<equiv> CHR 0x22"

abbreviation squote :: char where
  "squote \<equiv> CHR 0x27"

abbreviation spaces :: item where
  "spaces \<equiv> It (In [Sp]) Star"

definition SERIF_PATTERNS :: "item list list" where
  "SERIF_PATTERNS = [
     lit ''serif'',
     lit ''georgia'',
     lit ''times'',
     lit ''garamond'',
     lit ''palatino'',
     lit ''cambria'',
     lit ''didot'',
     lit ''bodoni'',
     lit ''caslon'',
     lit ''baskerville'',
     lit ''minion'',
     lit ''sabon'',
     lit ''bembo'',
     lit ''plantin'',
     lit ''econ'' @ [It Dot Star] @ lit ''serif'',
     lit ''economist'' @ [It Dot Star] @ lit ''serif'']"

definition SANS_PATTERNS :: "item list list" where
  "SANS_PATTERNS = [
     lit ''sans'',
     lit ''arial'',
     lit ''helvetica'',
     lit ''verdana'',
     lit ''tahoma'',
     lit ''roboto'',
     lit ''open'' @ [spaces] @ lit ''sans'',
     lit ''lato'',
     lit ''montserrat'',
     lit ''proxima'',
     lit ''futura'',
     lit ''avenir'',
     lit ''gotham'',
     lit ''gill'',
     lit ''franklin'',
     lit ''econ'' @ [It Dot Star] @ lit ''sans'',
     lit ''economist'' @ [It Dot Star] @ lit ''sans'']"

definition MONO_PATTERNS :: "item list list" where
  "MONO_PATTERNS = [
     lit ''mono'',
     lit ''courier'',
     lit ''consolas'',
     lit ''menlo'',
     lit ''fira'' @ [spaces] @ lit ''code'',
     lit ''source'' @ [spaces] @ lit ''code'',
     lit ''jetbrains'']"

text \<open>
  One loop of \<^verbatim>\<open>classify_font\<close>: is there a pattern of the list, taken in order, that
  \<^verbatim>\<open>re.search\<close> finds in the text?
\<close>

fun search_any :: "item list list \<Rightarrow> string \<Rightarrow> bool" where
  "search_any [] s = False"
| "search_any (pattern # patterns) s =
     (if re_search no_flags pattern s \<noteq> None then True else search_any patterns s)"

definition classify_font :: "string \<Rightarrow> FontCategory" where
  "classify_font family' =
     (let family_lower = lower family' in
      if search_any MONO_PATTERNS family_lower then MONOSPACE
      else if search_any SANS_PATTERNS family_lower then SANS_SERIF
      else if search_any SERIF_PATTERNS family_lower then SERIF
      else UNKNOWN)"

section \<open>Source resolver\<close>

definition quote_opt :: item where
  "quote_opt = It (In [Ch dquote, Ch squote]) Opt"

definition token_group :: item where
  "token_group = Grp (NotIn [Ch dquote, Ch squote, Ch CHR '')'', Sp]) Plus"

text \<open>\<^verbatim>\<open>url\(["\']?([^"\')\s]+)["\']?\)\<close>\<close>

definition URL_RE :: "item list" where
  "URL_RE = lit ''url('' @ [quote_opt, token_group, quote_opt, It (Lit CHR '')'') One]"

text \<open>\<^verbatim>\<open>format\(["\']?([^"\')\s]+)["\']?\)\<close>\<close>

definition FORMAT_RE :: "item list" where
  "FORMAT_RE = lit ''format('' @ [quote_opt, token_group, quote_opt, It (Lit CHR '')'') One]"

definition extract_font_url ::
  "libs \<Rightarrow> string \<Rightarrow> string \<Rightarrow> py_error + (string \<times> string option) option" where
  "extract_font_url lib src_value base_url =
     (case re_search no_flags URL_RE src_value of
        None \<Rightarrow> Inr None
      | Some (before, url_match, after) \<Rightarrow>
          let raw_url = group1 URL_RE url_match in
          if prefix ''data:'' raw_url then Inr None
          else
            (case urljoin lib base_url raw_url of
               Inl e \<Rightarrow> Inl e
             | Inr absolute_url \<Rightarrow>
                 let font_format =
                   (case re_search no_flags FORMAT_RE src_value of
                      Some (before', format_match, after') \<Rightarrow>
                        Some (group1 FORMAT_RE format_match)
                    | None \<Rightarrow> None)
                 in Inr (Some (absolute_url, font_format))))"

section \<open>Font-face rule parser\<close>

text \<open>The first loop of \<^verbatim>\<open>parse_font_face_rule\<close>, over the properties of the rule.\<close>

definition read_property ::
  "string option \<times> string \<times> string \<times> string option \<Rightarrow> string \<times> string \<Rightarrow>
   string option \<times> string \<times> string \<times> string option" where
  "read_property st prop =
     (case (st, prop) of
        ((family', weight', style', src_value), (name, val)) \<Rightarrow>
          if name = ''font-family''
            then (Some (strip_chars (\<lambda>c. c \<in> {squote, dquote}) val), weight', style', src_value)
          else if name = ''font-weight'' then (family', val, style', src_value)
          else if name = ''font-style'' then (family', weight', val, src_value)
          else if name = ''src'' then (family', weight', style', Some val)
          else (family', weight', style', src_value))"

definition read_properties ::
  "(string \<times> string) list \<Rightarrow> string option \<times> string \<times> string \<times> string option" where
  "read_properties rule = foldl read_property (None, ''400'', ''normal'', None) rule"

definition format_priority :: "(string \<times> nat) list" where
  "format_priority =
     [(''woff2'', 0), (''woff'', 1), (''truetype'', 2), (''opentype'', 3),
      (''embedded-opentype'', 4)]"

definition ext_to_fmt :: "(string \<times> nat) list" where
  "ext_to_fmt = [(''.woff2'', 0), (''.woff'', 1), (''.ttf'', 2), (''.otf'', 3), (''.eot'', 4)]"

text \<open>\<^verbatim>\<open>d.get(key, default)\<close>\<close>

definition dict_get :: "('k \<times> 'v) list \<Rightarrow> 'k \<Rightarrow> 'v \<Rightarrow> 'v" where
  "dict_get d k dflt = (case map_of d k of Some v \<Rightarrow> v | None \<Rightarrow> dflt)"

text \<open>The priority of one candidate, as the body of the second loop computes it.\<close>

definition candidate_priority :: "libs \<Rightarrow> string \<Rightarrow> string option \<Rightarrow> py_error + nat" where
  "candidate_priority lib u fmt =
     (case fmt of
        Some f \<Rightarrow> Inr (dict_get format_priority f 5)
      | None \<Rightarrow>
          (case urlparse_path lib u of
             Inl e \<Rightarrow> Inl e
           | Inr p \<Rightarrow> Inr (dict_get ext_to_fmt (lower (path_suffix p)) 5)))"

text \<open>The second loop, over the comma-separated parts of the \<^verbatim>\<open>src\<close> value.\<close>

fun collect_candidates ::
  "libs \<Rightarrow> string \<Rightarrow> string list \<Rightarrow> (string \<times> string option \<times> nat) list \<Rightarrow>
   py_error + (string \<times> string option \<times> nat) list" where
  "collect_candidates lib base_url [] candidates = Inr candidates"
| "collect_candidates lib base_url (src_part # src_parts) candidates =
     (case extract_font_url lib (strip src_part) base_url of
        Inl e \<Rightarrow> Inl e
      | Inr None \<Rightarrow> collect_candidates lib base_url src_parts candidates
      | Inr (Some (u, fmt)) \<Rightarrow>
          (case candidate_priority lib u fmt of
             Inl e \<Rightarrow> Inl e
           | Inr priority \<Rightarrow>
               collect_candidates lib base_url src_parts (candidates @ [(u, fmt, priority)])))"

definition parse_font_face_rule ::
  "libs \<Rightarrow> (string \<times> string) list \<Rightarrow> string \<Rightarrow> py_error + FontFace list" where
  "parse_font_face_rule lib rule base_url =
     (case read_properties rule of
        (family', weight', style', src_value) \<Rightarrow>
          if family' = None \<or> family' = Some [] \<or> src_value = None \<or> src_value = Some []
          then Inr []
          else
            (case collect_candidates lib base_url (split CHR '','' (the src_value)) [] of
               Inl e \<Rightarrow> Inl e
             | Inr candidates \<Rightarrow>
                 if candidates = [] then Inr []
                 else
                   (case hd (sort_key (\<lambda>(u, fmt, priority). priority) candidates) of
                      (best_url, best_format, priority) \<Rightarrow>
                        Inr [\<lparr>family = the family', url = best_url, weight = weight',
                              style = style', format = best_format,
                              category = classify_font (the family')\<rparr>])))"

section \<open>Stylesheet scanner\<close>

text \<open>\<^verbatim>\<open>@font-face\s*\{([^}]+)\}\<close> with \<^verbatim>\<open>re.IGNORECASE | re.DOTALL\<close>\<close>

definition FONT_FACE_RE :: "item list" where
  "FONT_FACE_RE = lit ''@font-face'' @
     [spaces, It (Lit CHR ''{'') One, Grp (NotIn [Ch CHR ''}'']) Plus, It (Lit CHR ''}'') One]"

definition FONT_FACE_FLAGS :: re_flags where
  "FONT_FACE_FLAGS = \<lparr>IGNORECASE = True, DOTALL = True\<rparr>"

text \<open>\<^verbatim>\<open>font-family\s*:\s*['\"]?([^;'\"]+)['\"]?\s*;\<close>\<close>

definition FAMILY_RE :: "item list" where
  "FAMILY_RE = lit ''font-family'' @
     [spaces, It (Lit CHR '':'') One, spaces, It (In [Ch squote, Ch dquote]) Opt,
      Grp (NotIn [Ch CHR '';'', Ch squote, Ch dquote]) Plus,
      It (In [Ch squote, Ch dquote]) Opt, spaces, It (Lit CHR '';'') One]"

text \<open>\<^verbatim>\<open>NAME\s*:\s*([^;]+);\<close> for the property \<^verbatim>\<open>NAME\<close>\<close>

definition property_re :: "string \<Rightarrow> item list" where
  "property_re name = lit name @
     [spaces, It (Lit CHR '':'') One, spaces, Grp (NotIn [Ch CHR '';'']) Plus,
      It (Lit CHR '';'') One]"

definition SRC_RE :: "item list" where
  "SRC_RE = property_re ''src''"

definition WEIGHT_RE :: "item list" where
  "WEIGHT_RE = property_re ''font-weight''"

definition STYLE_RE :: "item list" where
  "STYLE_RE = property_re ''font-style''"

definition dotall :: re_flags where
  "dotall = \<lparr>IGNORECASE = False, DOTALL = True\<rparr>"

text \<open>
  The body of the loop of \<^verbatim>\<open>parse_css_with_regex\<close>, for the text of one block: the
  FontFace it appends, if any.
\<close>

definition parse_block :: "libs \<Rightarrow> string \<Rightarrow> string \<Rightarrow> py_error + FontFace option" where
  "parse_block lib block base_url =
     (let family_match = re_search no_flags FAMILY_RE block;
          src_match = re_search dotall SRC_RE block;
          weight_match = re_search no_flags WEIGHT_RE block;
          style_match = re_search no_flags STYLE_RE block
      in
      if family_match = None \<or> src_match = None then Inr None
      else
        let family' = strip (group1 FAMILY_RE (fst (snd (the family_match))));
            src_value = strip (group1 SRC_RE (fst (snd (the src_match))));
            weight' = (case weight_match of
                        Some (b, m, a) \<Rightarrow> strip (group1 WEIGHT_RE m)
                      | None \<Rightarrow> ''400'');
            style' = (case style_match of
                       Some (b, m, a) \<Rightarrow> strip (group1 STYLE_RE m)
                     | None \<Rightarrow> ''normal'')
        in
        (case extract_font_url lib src_value base_url of
           Inl e \<Rightarrow> Inl e
         | Inr None \<Rightarrow> Inr None
         | Inr (Some (u, fmt)) \<Rightarrow>
             Inr (Some \<lparr>family = family', url = u, weight = weight', style = style',
                        format = fmt, category = classify_font family'\<rparr>)))"

fun parse_blocks :: "libs \<Rightarrow> string \<Rightarrow> string list \<Rightarrow> FontFace list \<Rightarrow> py_error + FontFace list" where
  "parse_blocks lib base_url [] fonts = Inr fonts"
| "parse_blocks lib base_url (block # blocks) fonts =
     (case parse_block lib block base_url of
        Inl e \<Rightarrow> Inl e
      | Inr None \<Rightarrow> parse_blocks lib base_url blocks fonts
      | Inr (Some font) \<Rightarrow> parse_blocks lib base_url blocks (fonts @ [font]))"

definition parse_css_with_regex :: "libs \<Rightarrow> string \<Rightarrow> string \<Rightarrow> py_error + FontFace list" where
  "parse_css_with_regex lib css_text base_url =
     parse_blocks lib base_url
       (map (group1 FONT_FACE_RE) (re_finditer FONT_FACE_FLAGS FONT_FACE_RE css_text)) []"

text \<open>
  The loop inside the \<^verbatim>\<open>try\<close> of \<^verbatim>\<open>parse_css_for_fonts\<close>. It ends with the list
  \<open>fonts\<close> as it stands, and with the exception that ended it, if one did.
\<close>

fun parse_rules ::
  "libs \<Rightarrow> string \<Rightarrow> css_rule list \<Rightarrow> FontFace list \<Rightarrow> FontFace list \<times> py_error option" where
  "parse_rules lib base_url [] fonts = (fonts, None)"
| "parse_rules lib base_url (CSSOtherRule # rules) fonts = parse_rules lib base_url rules fonts"
| "parse_rules lib base_url (CSSFontFaceRule rule # rules) fonts =
     (case parse_font_face_rule lib rule base_url of
        Inl e \<Rightarrow> (fonts, Some e)
      | Inr found \<Rightarrow> parse_rules lib base_url rules (fonts @ found))"

definition try_structured :: "libs \<Rightarrow> string \<Rightarrow> string \<Rightarrow> FontFace list \<times> py_error option" where
  "try_structured lib css_text base_url =
     (case parseString lib css_text of
        Inl e \<Rightarrow> ([], Some e)
      | Inr sheet \<Rightarrow> parse_rules lib base_url sheet [])"

definition parse_css_for_fonts :: "libs \<Rightarrow> string \<Rightarrow> string \<Rightarrow> py_error + FontFace list" where
  "parse_css_for_fonts lib css_text base_url =
     (case try_structured lib css_text base_url of
        (fonts, None) \<Rightarrow> Inr fonts
      | (fonts, Some e) \<Rightarrow>
          (case parse_css_with_regex lib css_text base_url of
             Inl e' \<Rightarrow> Inl e'
           | Inr fallback \<Rightarrow> Inr (fonts @ fallback)))"


section \<open>Source selection by name\<close>

text \<open>
  The lines of \<^verbatim>\<open>parse_font_face_rule\<close> that choose the source of a rule are given names
  here, the ones the specification uses: the candidates of a \<^verbatim>\<open>src\<close> value, in the order
  of declaration, and the best of them.
\<close>

type_synonym candidate = "string \<times> string option \<times> nat"

definition candidates :: "libs \<Rightarrow> string \<Rightarrow> string \<Rightarrow> py_error + candidate list" where
  "candidates lib src_value base_url =
     collect_candidates lib base_url (split CHR '','' src_value) []"










text \<open>A character that may stand inside an unquoted \<^verbatim>\<open>url(...)\<close> token.\<close>

definition token_char :: "char \<Rightarrow> bool" where
  "token_char c = (c \<noteq> dquote \<and> c \<noteq> squote \<and> c \<noteq> CHR '')'' \<and> \<not> isspace c)"


section \<open>The structured pass by name\<close>

text \<open>What the loop of \<^verbatim>\<open>parse_css_for_fonts\<close> does with one rule of the sheet.\<close>

definition rule_fonts :: "libs \<Rightarrow> string \<Rightarrow> css_rule \<Rightarrow> py_error + FontFace list" where
  "rule_fonts lib base_url r =
     (case r of
        CSSOtherRule \<Rightarrow> Inr []
      | CSSFontFaceRule props \<Rightarrow> parse_font_face_rule lib props base_url)"

definition rule_ok :: "libs \<Rightarrow> string \<Rightarrow> css_rule \<Rightarrow> bool" where
  "rule_ok lib base_url r = (\<exists>fs. rule_fonts lib base_url r = Inr fs)"

text \<open>The FontFaces of a list of rules none of which raises.\<close>

definition rules_fonts :: "libs \<Rightarrow> string \<Rightarrow> css_rule list \<Rightarrow> FontFace list" where
  "rules_fonts lib base_url rules =
     concat (map (\<lambda>r. case rule_fonts lib base_url r of Inr fs \<Rightarrow> fs | Inl e \<Rightarrow> []) rules)"


section \<open>Download\<close>

text \<open>
  A path made by \<^verbatim>\<open>output_dir / filename\<close> is kept as the pair of the directory and the
  name joined to it.
\<close>

record DownloadResult =
  font :: FontFace
  success :: bool
  path :: "(string \<times> string) option"
  error :: "string option"

text \<open>\<^verbatim>\<open>str(n)\<close> for a number that is not negative, and the format \<^verbatim>\<open>{n:02d}\<close>.\<close>

definition digit_char :: "nat \<Rightarrow> char" where
  "digit_char k = ''0123456789'' ! k"

function str_nat :: "nat \<Rightarrow> string" where
  "str_nat n = (if n < 10 then [digit_char n] else str_nat (n div 10) @ [digit_char (n mod 10)])"
  by pat_completeness auto
termination
  by (relation "measure (\<lambda>n. n)") auto

declare str_nat.simps [simp del]

definition format_02d :: "nat \<Rightarrow> string" where
  "format_02d n = replicate (2 - length (str_nat n)) CHR ''0'' @ str_nat n"

text \<open>\<^verbatim>\<open>[^\w\-]\<close> and \<^verbatim>\<open>\s+\<close>\<close>

definition UNSAFE_RE :: "item list" where
  "UNSAFE_RE = [It (NotIn [Wd, Ch CHR ''-'']) One]"

definition SPACES_RE :: "item list" where
  "SPACES_RE = [It (In [Sp]) Plus]"

text \<open>The name that \<^verbatim>\<open>download_font\<close> gives to the file, from the path part of the url.\<close>

definition font_filename :: "FontFace \<Rightarrow> string \<Rightarrow> nat \<Rightarrow> string" where
  "font_filename fnt parsed_path index =
     (let original_name = path_name parsed_path;
          original_name =
            (if CHR ''?'' \<in> set original_name then hd (split CHR ''?'' original_name)
             else original_name);
          safe_family = re_sub no_flags UNSAFE_RE ''_'' (family fnt);
          safe_weight = re_sub no_flags SPACES_RE ''_'' (weight fnt);
          ext = (if path_suffix original_name = [] then ''.woff2''
                 else path_suffix original_name)
      in safe_family @ ''-'' @ safe_weight @ ''-'' @ style fnt @ ''-'' @ format_02d index @ ext)"

definition failed :: "FontFace \<Rightarrow> py_error \<Rightarrow> DownloadResult" where
  "failed fnt e =
     (case e of Exception msg \<Rightarrow> \<lparr>font = fnt, success = False, path = None, error = Some msg\<rparr>)"

definition download_font :: "libs \<Rightarrow> FontFace \<Rightarrow> string \<Rightarrow> nat \<Rightarrow> DownloadResult" where
  "download_font lib fnt output_dir index =
     (case client_get lib (url fnt) of
        Inl e \<Rightarrow> failed fnt e
      | Inr content \<Rightarrow>
          (case urlparse_path lib (url fnt) of
             Inl e \<Rightarrow> failed fnt e
           | Inr parsed_path \<Rightarrow>
               let filename = font_filename fnt parsed_path index;
                   output_path = (output_dir, filename)
               in
               (case write_bytes lib (output_dir @ ''/'' @ filename) content of
                  Inl e \<Rightarrow> failed fnt e
                | Inr u \<Rightarrow>
                    \<lparr>font = fnt, success = True, path = Some output_path, error = None\<rparr>)))"

text \<open>
  The part of \<^verbatim>\<open>main\<close> between collection and conversion: deduplicate, filter, and
  download every font that is left, with its position in that list as its index.
\<close>

definition download_all ::
  "libs \<Rightarrow> FontFace list \<Rightarrow> FontCategory set option \<Rightarrow> string \<Rightarrow> DownloadResult list" where
  "download_all lib collected categories output_dir =
     (let fonts = deduplicate_fonts collected;
          fonts = filter_fonts fonts categories
      in map (\<lambda>(i, fnt). download_font lib fnt output_dir i) (enumerate 0 fonts))"


section \<open>The parts of a file name by name\<close>

text \<open>
  What the two substitutions of \<^verbatim>\<open>download_font\<close> compute, without the search: the
  family with every character replaced that is neither a word character nor a hyphen, and
  the weight with every run of white space replaced.
\<close>

definition kept_char :: "char \<Rightarrow> bool" where
  "kept_char c = (isword c \<or> c = CHR ''-'')"

definition sanitized_family :: "string \<Rightarrow> string" where
  "sanitized_family s = map (\<lambda>c. if kept_char c then c else CHR ''_'') s"

function squeeze :: "(char \<Rightarrow> bool) \<Rightarrow> string \<Rightarrow> string \<Rightarrow> string" where
  "squeeze P repl [] = []"
| "squeeze P repl (c # cs) =
     (if P c then repl @ squeeze P repl (dropWhile P cs) else c # squeeze P repl cs)"
  by pat_completeness auto
termination
  by (relation "measure (\<lambda>(P, repl, s). length s)")
    (auto simp: length_dropWhile_le less_Suc_eq_le)

definition sanitized_weight :: "string \<Rightarrow> string" where
  "sanitized_weight s = squeeze isspace ''_'' s"

text \<open>The extension of the file, from the path part of the url.\<close>

definition extension :: "string \<Rightarrow> string" where
  "extension parsed_path =
     (if path_suffix parsed_path = [] then ''.woff2'' else path_suffix parsed_path)"

text \<open>
  The class of characters that the specification names for the family,
  \<^verbatim>\<open>[A-Za-z0-9_-]\<close>, and the sanitization in its words.
\<close>

definition ascii_safe :: string where
  "ascii_safe = ''ABCDEFGHIJKLMNOPQRSTUVWXYZabcdefghijklmnopqrstuvwxyz0123456789_-''"

definition claimed_family :: "string \<Rightarrow> string" where
  "claimed_family s = map (\<lambda>c. if c \<in> set ascii_safe then c else CHR ''_'') s"

text \<open>The word characters that are not ASCII.\<close>

definition non_ascii_word_chars :: string where
  "non_ascii_word_chars = drop 26 upper_chars @ drop 26 lower_chars @ other_word_chars"


section \<open>The URL functions of the standard library\<close>

text \<open>
  An instance of the collaborators for concrete runs: \<^verbatim>\<open>urlsplit\<close>, \<^verbatim>\<open>urlparse\<close>,
  \<^verbatim>\<open>urlunsplit\<close>, \<^verbatim>\<open>urlunparse\<close> and \<^verbatim>\<open>urljoin\<close> as CPython 3.12 computes them.
  Of the checks that make \<^verbatim>\<open>urlsplit\<close> raise, the one for an unmatched bracket in the
  network location is modelled; the validation of a bracketed host and of a host that is not
  ASCII is not.
\<close>

definition uses_relative :: "string list" where
  "uses_relative = ['''', ''ftp'', ''http'', ''gopher'', ''nntp'', ''imap'', ''wais'', ''file'',
     ''https'', ''shttp'', ''mms'', ''prospero'', ''rtsp'', ''rtsps'', ''rtspu'', ''sftp'',
     ''svn'', ''svn+ssh'', ''ws'', ''wss'']"

definition uses_netloc :: "string list" where
  "uses_netloc = ['''', ''ftp'', ''http'', ''gopher'', ''nntp'', ''telnet'', ''imap'', ''wais'',
     ''file'', ''mms'', ''https'', ''shttp'', ''snews'', ''prospero'', ''rtsp'', ''rtsps'',
     ''rtspu'', ''rsync'', ''svn'', ''svn+ssh'', ''sftp'', ''nfs'', ''git'', ''git+ssh'',
     ''ws'', ''wss'', ''itms-services'']"

definition uses_params :: "string list" where
  "uses_params = ['''', ''ftp'', ''hdl'', ''prospero'', ''http'', ''imap'', ''https'', ''shttp'',
     ''rtsp'', ''rtsps'', ''rtspu'', ''sip'', ''sips'', ''mms'', ''sftp'', ''tel'']"

definition scheme_chars :: string where
  "scheme_chars =
     ''abcdefghijklmnopqrstuvwxyzABCDEFGHIJKLMNOPQRSTUVWXYZ0123456789+-.''"

definition ascii_letters :: string where
  "ascii_letters = ''abcdefghijklmnopqrstuvwxyzABCDEFGHIJKLMNOPQRSTUVWXYZ''"

definition C0_CONTROL_OR_SPACE :: string where
  "C0_CONTROL_OR_SPACE = [CHR 0x00, CHR 0x01, CHR 0x02, CHR 0x03, CHR 0x04, CHR 0x05, CHR 0x06,
     CHR 0x07, CHR 0x08, CHR 0x09, CHR 0x0A, CHR 0x0B, CHR 0x0C, CHR 0x0D, CHR 0x0E, CHR 0x0F,
     CHR 0x10, CHR 0x11, CHR 0x12, CHR 0x13, CHR 0x14, CHR 0x15, CHR 0x16, CHR 0x17, CHR 0x18,
     CHR 0x19, CHR 0x1A, CHR 0x1B, CHR 0x1C, CHR 0x1D, CHR 0x1E, CHR 0x1F, CHR 0x20]"

definition UNSAFE_URL_BYTES_TO_REMOVE :: string where
  "UNSAFE_URL_BYTES_TO_REMOVE = [CHR 0x09, CHR 0x0D, CHR 0x0A]"

text \<open>\<^verbatim>\<open>s.split(sep, 1)\<close> when \<open>sep\<close> occurs in \<open>s\<close>: the text before and after its first occurrence.\<close>

definition split_first :: "char \<Rightarrow> string \<Rightarrow> string \<times> string" where
  "split_first sep s = (takeWhile (\<lambda>c. c \<noteq> sep) s, drop 1 (dropWhile (\<lambda>c. c \<noteq> sep) s))"

text \<open>\<^verbatim>\<open>sep.join(parts)\<close>\<close>

fun join :: "string \<Rightarrow> string list \<Rightarrow> string" where
  "join sep [] = []"
| "join sep [x] = x"
| "join sep (x # y # ys) = x @ sep @ join sep (y # ys)"

definition std_urlsplit ::
  "string \<Rightarrow> string \<Rightarrow> py_error + (string \<times> string \<times> string \<times> string \<times> string)" where
  "std_urlsplit url0 scheme0 =
     (let u = dropWhile (\<lambda>c. c \<in> set C0_CONTROL_OR_SPACE) url0;
          scheme = strip_chars (\<lambda>c. c \<in> set C0_CONTROL_OR_SPACE) scheme0;
          u = filter (\<lambda>c. c \<notin> set UNSAFE_URL_BYTES_TO_REMOVE) u;
          scheme = filter (\<lambda>c. c \<notin> set UNSAFE_URL_BYTES_TO_REMOVE) scheme;
          head = takeWhile (\<lambda>c. c \<noteq> CHR '':'') u;
          has_scheme = (CHR '':'' \<in> set u \<and> head \<noteq> [] \<and> hd u \<in> set ascii_letters
                        \<and> list_all (\<lambda>c. c \<in> set scheme_chars) head);
          scheme = (if has_scheme then lower head else scheme);
          u = (if has_scheme then drop (length head + 1) u else u);
          has_netloc = (take 2 u = ''//'');
          netloc = (if has_netloc
                    then takeWhile (\<lambda>c. c \<notin> {CHR ''/'', CHR ''?'', CHR ''#''}) (drop 2 u)
                    else []);
          u = (if has_netloc
               then dropWhile (\<lambda>c. c \<notin> {CHR ''/'', CHR ''?'', CHR ''#''}) (drop 2 u)
               else u)
      in
      if (CHR ''['' \<in> set netloc \<and> CHR '']'' \<notin> set netloc)
         \<or> (CHR '']'' \<in> set netloc \<and> CHR ''['' \<notin> set netloc)
      then Inl (Exception ''Invalid IPv6 URL'')
      else
        let fragment = (if CHR ''#'' \<in> set u then snd (split_first CHR ''#'' u) else []);
            u = (if CHR ''#'' \<in> set u then fst (split_first CHR ''#'' u) else u);
            query = (if CHR ''?'' \<in> set u then snd (split_first CHR ''?'' u) else []);
            u = (if CHR ''?'' \<in> set u then fst (split_first CHR ''?'' u) else u)
        in Inr (scheme, netloc, u, query, fragment))"

text \<open>
  \<^verbatim>\<open>_splitparams\<close>: the parameters follow the first semicolon of the last segment of the
  path.
\<close>

definition splitparams :: "string \<Rightarrow> string \<times> string" where
  "splitparams u =
     (if CHR ''/'' \<in> set u then
        (let last_segment = rev (takeWhile (\<lambda>c. c \<noteq> CHR ''/'') (rev u));
             start = length u - length last_segment
         in if CHR '';'' \<in> set last_segment
            then (take start u @ fst (split_first CHR '';'' last_segment),
                  snd (split_first CHR '';'' last_segment))
            else (u, []))
      else split_first CHR '';'' u)"

definition std_urlparse ::
  "string \<Rightarrow> string \<Rightarrow>
   py_error + (string \<times> string \<times> string \<times> string \<times> string \<times> string)" where
  "std_urlparse url0 scheme0 =
     (case std_urlsplit url0 scheme0 of
        Inl e \<Rightarrow> Inl e
      | Inr (scheme, netloc, u, query, fragment) \<Rightarrow>
          if scheme \<in> set uses_params \<and> CHR '';'' \<in> set u
          then Inr (scheme, netloc, fst (splitparams u), snd (splitparams u), query, fragment)
          else Inr (scheme, netloc, u, [], query, fragment))"

definition std_urlunsplit :: "string \<times> string \<times> string \<times> string \<times> string \<Rightarrow> string" where
  "std_urlunsplit components =
     (case components of
        (scheme, netloc, u, query, fragment) \<Rightarrow>
          let u = (if netloc \<noteq> [] \<or> (scheme \<noteq> [] \<and> scheme \<in> set uses_netloc \<and> take 2 u \<noteq> ''//'')
                   then ''//'' @ netloc @ (if u \<noteq> [] \<and> take 1 u \<noteq> ''/'' then ''/'' @ u else u)
                   else u);
              u = (if scheme \<noteq> [] then scheme @ '':'' @ u else u);
              u = (if query \<noteq> [] then u @ ''?'' @ query else u);
              u = (if fragment \<noteq> [] then u @ ''#'' @ fragment else u)
          in u)"

definition std_urlunparse ::
  "string \<times> string \<times> string \<times> string \<times> string \<times> string \<Rightarrow> string" where
  "std_urlunparse components =
     (case components of
        (scheme, netloc, u, params, query, fragment) \<Rightarrow>
          std_urlunsplit (scheme, netloc, (if params \<noteq> [] then u @ '';'' @ params else u),
            query, fragment))"

text \<open>The loop of \<^verbatim>\<open>urljoin\<close> that resolves the dot segments.\<close>

fun resolve_segments :: "string list \<Rightarrow> string list \<Rightarrow> string list" where
  "resolve_segments [] resolved_path = resolved_path"
| "resolve_segments (seg # segments) resolved_path =
     (if seg = ''..'' then resolve_segments segments (butlast resolved_path)
      else if seg = ''.'' then resolve_segments segments resolved_path
      else resolve_segments segments (resolved_path @ [seg]))"

text \<open>\<^verbatim>\<open>segments[1:-1] = filter(None, segments[1:-1])\<close>\<close>

definition filter_inner :: "string list \<Rightarrow> string list" where
  "filter_inner segments =
     (if length segments < 2 then segments
      else hd segments # filter (\<lambda>x. x \<noteq> []) (butlast (tl segments)) @ [last segments])"

definition std_urljoin :: "string \<Rightarrow> string \<Rightarrow> py_error + string" where
  "std_urljoin base u0 =
     (if base = [] then Inr u0
      else if u0 = [] then Inr base
      else
        (case std_urlparse base [] of
           Inl e \<Rightarrow> Inl e
         | Inr (bscheme, bnetloc, bpath, bparams, bquery, bfragment) \<Rightarrow>
             (case std_urlparse u0 bscheme of
                Inl e \<Rightarrow> Inl e
              | Inr (scheme, netloc, upath, params, query, fragment) \<Rightarrow>
                  if scheme \<noteq> bscheme \<or> scheme \<notin> set uses_relative then Inr u0
                  else if scheme \<in> set uses_netloc \<and> netloc \<noteq> []
                    then Inr (std_urlunparse (scheme, netloc, upath, params, query, fragment))
                  else
                    let netloc = (if scheme \<in> set uses_netloc then bnetloc else netloc) in
                    if upath = [] \<and> params = []
                    then Inr (std_urlunparse (scheme, netloc, bpath, bparams,
                                (if query = [] then bquery else query), fragment))
                    else
                      let base_parts = split CHR ''/'' bpath;
                          base_parts = (if last base_parts \<noteq> [] then butlast base_parts
                                        else base_parts);
                          segments = (if take 1 upath = ''/'' then split CHR ''/'' upath
                                      else filter_inner (base_parts @ split CHR ''/'' upath));
                          resolved_path = resolve_segments segments [];
                          resolved_path = (if last segments \<in> {''.'', ''..''}
                                           then resolved_path @ [[]] else resolved_path);
                          joined = join ''/'' resolved_path
                      in Inr (std_urlunparse (scheme, netloc,
                                (if joined = [] then ''/'' else joined), params, query,
                                fragment)))))"

definition std_urlparse_path :: "string \<Rightarrow> py_error + string" where
  "std_urlparse_path u =
     (case std_urlparse u [] of
        Inl e \<Rightarrow> Inl e
      | Inr (scheme, netloc, upath, params, query, fragment) \<Rightarrow> Inr upath)"


section \<open>Example values\<close>

definition font_a :: FontFace where
  "font_a = \<lparr>family = ''Alpha'', url = ''https://x.test/a.woff2'', weight = ''400'',
     style = ''normal'', format = Some ''woff2'', category = UNKNOWN\<rparr>"
definition font_b :: FontFace where
  "font_b = \<lparr>family = ''Beta'', url = ''https://x.test/a.woff2'', weight = ''700'',
     style = ''italic'', format = None, category = SERIF\<rparr>"
definition font_c :: FontFace where
  "font_c = \<lparr>family = ''Gamma'', url = ''https://x.test/c.woff'', weight = ''400'',
     style = ''normal'', format = None, category = UNKNOWN\<rparr>"


definition myfont_css :: string where
  "myfont_css = ''@font-face{font-family:'MyFont';src:url('a.ttf') format('truetype'),url('a.woff2') format('woff2');}''"

definition myfont_base :: string where
  "myfont_base = ''https://x.test/css/s.css''"

text \<open>The properties of the rule as the text has them, and as a parser gives them that
  writes strings with double quotes, urls without quotes and a space after a comma.\<close>

definition myfont_rule :: "(string \<times> string) list" where
  "myfont_rule =
     [(''font-family'', [squote] @ ''MyFont'' @ [squote]),
      (''src'', ''url('a.ttf') format('truetype'),url('a.woff2') format('woff2')'')]"

definition myfont_rule_normalised :: "(string \<times> string) list" where
  "myfont_rule_normalised =
     [(''font-family'', [dquote] @ ''MyFont'' @ [dquote]),
      (''src'', ''url(a.ttf) format('' @ [dquote] @ ''truetype'' @ [dquote] @ ''), url(a.woff2) format(''
         @ [dquote] @ ''woff2'' @ [dquote] @ '')'')]"

definition myfont_face :: FontFace where
  "myfont_face = \<lparr>family = ''MyFont'', url = ''https://x.test/css/a.woff2'', weight = ''400'',
     style = ''normal'', format = Some ''woff2'', category = UNKNOWN\<rparr>"

definition std_lib :: "(string \<Rightarrow> py_error + css_rule list) \<Rightarrow> libs" where
  "std_lib parser = \<lparr>urljoin = std_urljoin, urlparse_path = std_urlparse_path,
     parseString = parser, client_get = (\<lambda>u. Inr ''font bytes''),
     write_bytes = (\<lambda>p content. Inr ())\<rparr>"







definition no_parser :: "string \<Rightarrow> py_error + css_rule list" where
  "no_parser css = Inl (Exception ''no parser'')"





text \<open>
  A sheet of two font-face rules. The url of the second has an unmatched bracket where the
  host is expected, which \<^verbatim>\<open>urljoin\<close> refuses with a \<^verbatim>\<open>ValueError\<close>. The second
  block has no semicolon after its last declaration.
\<close>

definition two_rules_css :: string where
  "two_rules_css =
     ''@font-face{font-family:A;src:url(a.woff2);}@font-face{font-family:B;src:url(//[x)}''"

definition two_rules_sheet :: "css_rule list" where
  "two_rules_sheet =
     [CSSFontFaceRule [(''font-family'', ''A''), (''src'', ''url(a.woff2)'')],
      CSSFontFaceRule [(''font-family'', ''B''), (''src'', ''url(//[x)'')]]"

definition two_rules_parser :: "string \<Rightarrow> py_error + css_rule list" where
  "two_rules_parser css = Inr two_rules_sheet"

definition face_A :: FontFace where
  "face_A = \<lparr>family = ''A'', url = ''https://x.test/css/a.woff2'', weight = ''400'',
     style = ''normal'', format = None, category = UNKNOWN\<rparr>"

text \<open>The intact block of the fallback scenario, and the text between its braces.\<close>

definition georgia_body :: string where
  "georgia_body = ''font-family:'' @ [dquote] @ ''Georgia Pro'' @ [dquote] @ '';src:url(g.woff);''"

definition georgia_block :: string where
  "georgia_block = ''@font-face{'' @ georgia_body @ ''}''"


text \<open>A style sheet with a rule that is never closed before the intact block.\<close>

definition broken_css :: string where
  "broken_css = ''p { color: red; '' @ georgia_block @ '' a { color: blue }''"









text \<open>A font whose family has a letter that is not ASCII, and one with spaces.\<close>

definition cafe :: FontFace where
  "cafe = \<lparr>family = ''Caf'' @ [CHR 0xE9], url = ''https://x.test/fonts/cafe.woff2'',
     weight = ''400'', style = ''normal'', format = None, category = UNKNOWN\<rparr>"

definition open_sans :: FontFace where
  "open_sans = \<lparr>family = ''Open Sans!'', url = ''https://x.test/fonts/os?v=2'',
     weight = ''300  800'', style = ''italic'', format = None, category = SANS_SERIF\<rparr>"

section \<open>The search finds what the pattern accepts\<close>

lemma rmatch_sound:
  "rmatch fl p s = Some (ms, rest) \<Longrightarrow> s = concat ms @ rest \<and> accepts fl p ms"
proof (induction fl p s arbitrary: ms rest rule: rmatch.induct)
  case (1 fl s)
  then show ?case by simp
next
  case (2 fl i p)
  then show ?case by (auto split: if_splits)
next
  case (3 fl i p c cs)
  show ?case
  proof (cases "atom_match fl (atom_of i) c")
    case False
    with 3 show ?thesis by (auto split: if_splits)
  next
    case True
    show ?thesis
    proof (cases "quant_of i")
      case One
      with True 3 show ?thesis by auto
    next
      case Opt
      with True 3 show ?thesis by (auto split: option.splits)
    next
      case Star
      show ?thesis
      proof (cases "rmatch fl (i # p) cs")
        case None
        with True Star 3 show ?thesis by auto
      next
        case (Some r)
        obtain ms' rest' where r: "r = (ms', rest')" by (cases r)
        from "3.IH"(4) [OF True Star] Some r
        have ih: "cs = concat ms' @ rest' \<and> accepts fl (i # p) ms'" by simp
        then obtain m ms'' where ms': "ms' = m # ms''" by (cases ms') auto
        from "3.prems" True Star Some r ms' have "ms = (c # m) # ms''" "rest = rest'" by auto
        with ih ms' True Star show ?thesis by auto
      qed
    next
      case Plus
      show ?thesis
      proof (cases "rmatch fl (It (atom_of i) Star # p) cs")
        case None
        with True Plus 3 show ?thesis by auto
      next
        case (Some r)
        obtain ms' rest' where r: "r = (ms', rest')" by (cases r)
        from "3.IH"(6) [OF True Plus] Some r
        have ih: "cs = concat ms' @ rest' \<and> accepts fl (It (atom_of i) Star # p) ms'" by simp
        then obtain m ms'' where ms': "ms' = m # ms''" by (cases ms') auto
        from "3.prems" True Plus Some r ms' have "ms = (c # m) # ms''" "rest = rest'" by auto
        with ih ms' True Plus show ?thesis by auto
      qed
    qed
  qed
qed

lemma rmatch_skip:
  assumes "quant_of i = Opt \<or> quant_of i = Star" and "rmatch fl p s \<noteq> None"
  shows "rmatch fl (i # p) s \<noteq> None"
proof (cases s)
  case Nil
  with assms show ?thesis by auto
next
  case (Cons c cs)
  with assms show ?thesis by (auto split: option.splits quant.splits)
qed

lemma rmatch_star:
  assumes "quant_of i = Star" and "list_all (atom_match fl (atom_of i)) m"
    and "rmatch fl p s \<noteq> None"
  shows "rmatch fl (i # p) (m @ s) \<noteq> None"
  using assms(2)
proof (induction m)
  case Nil
  from assms(1,3) show ?case by (simp add: rmatch_skip del: rmatch.simps)
next
  case (Cons c m)
  then have "rmatch fl (i # p) (m @ s) \<noteq> None" by simp
  with Cons.prems assms(1) show ?case by auto
qed

lemma rmatch_item:
  assumes "list_all (atom_match fl (atom_of i)) m" and "quant_ok (quant_of i) (length m)"
    and "rmatch fl p s \<noteq> None"
  shows "rmatch fl (i # p) (m @ s) \<noteq> None"
proof (cases "quant_of i")
  case One
  with assms(2) obtain c where "m = [c]" by (cases m) auto
  with assms One show ?thesis by auto
next
  case Opt
  show ?thesis
  proof (cases m)
    case Nil
    with Opt assms(3) show ?thesis by (simp add: rmatch_skip del: rmatch.simps)
  next
    case (Cons c m')
    with assms(2) Opt have "m = [c]" by simp
    with assms Opt show ?thesis by auto
  qed
next
  case Star
  with assms show ?thesis by (simp add: rmatch_star del: rmatch.simps)
next
  case Plus
  with assms(2) obtain c m' where m: "m = c # m'" by (cases m) auto
  have "rmatch fl (It (atom_of i) Star # p) (m' @ s) \<noteq> None"
    using assms(1,3) m by (intro rmatch_star) auto
  with assms(1) m Plus show ?thesis by auto
qed

lemma rmatch_complete:
  "accepts fl p ms \<Longrightarrow> rmatch fl p (concat ms @ rest) \<noteq> None"
proof (induction p arbitrary: ms)
  case Nil
  then show ?case by (cases ms) auto
next
  case (Cons i p)
  then obtain m ms' where ms: "ms = m # ms'" by (cases ms) auto
  with Cons.prems have "rmatch fl p (concat ms' @ rest) \<noteq> None"
    by (intro Cons.IH) simp
  with Cons.prems ms have "rmatch fl (i # p) (m @ concat ms' @ rest) \<noteq> None"
    by (intro rmatch_item) auto
  with ms show ?case by simp
qed

lemma re_search_here:
  "rmatch fl p s = Some (ms, rest) \<Longrightarrow> re_search fl p s = Some ([], ms, rest)"
  by (cases s) simp_all

lemma re_search_sound:
  "re_search fl p s = Some (before, ms, rest) \<Longrightarrow>
     s = before @ concat ms @ rest \<and> accepts fl p ms \<and> rmatch fl p (concat ms @ rest) = Some (ms, rest)"
proof (induction s arbitrary: before)
  case Nil
  then have m: "rmatch fl p [] = Some (ms, rest)" "before = []" by auto
  from rmatch_sound [OF m(1)] have e: "[] = concat ms @ rest" and a: "accepts fl p ms" by auto
  have r: "rmatch fl p (concat ms @ rest) = Some (ms, rest)"
    unfolding e [symmetric] by (rule m(1))
  from m(2) have "[] = before @ concat ms @ rest" unfolding e [symmetric] by simp
  with a r show ?case by blast
next
  case (Cons c cs)
  show ?case
  proof (cases "rmatch fl p (c # cs)")
    case (Some r)
    with Cons.prems have r: "r = (ms, rest)" "before = []" by (auto split: prod.splits)
    from Some r rmatch_sound [of fl p "c # cs" ms rest] have "c # cs = concat ms @ rest" by simp
    with Some r rmatch_sound [of fl p "c # cs" ms rest] show ?thesis by simp
  next
    case None
    with Cons.prems obtain b' where b': "re_search fl p cs = Some (b', ms, rest)" "before = c # b'"
      by auto
    with Cons.IH [OF b'(1)] show ?thesis by simp
  qed
qed

lemma re_search_complete:
  "accepts fl p ms \<Longrightarrow> re_search fl p (before @ concat ms @ rest) \<noteq> None"
proof (induction before)
  case Nil
  then have "rmatch fl p (concat ms @ rest) \<noteq> None" by (rule rmatch_complete)
  then obtain r where "rmatch fl p (concat ms @ rest) = Some r" by auto
  then have "re_search fl p (concat ms @ rest) = Some ([], fst r, snd r)"
    by (intro re_search_here) simp
  then show ?case by simp
next
  case (Cons c before)
  then show ?case by (auto split: option.splits)
qed

lemma re_search_contains: "re_search fl p s \<noteq> None \<longleftrightarrow> contains fl p s"
proof
  assume "re_search fl p s \<noteq> None"
  then obtain b ms r where "re_search fl p s = Some (b, ms, r)" by auto
  then show "contains fl p s" unfolding contains_def by (blast dest: re_search_sound)
next
  assume "contains fl p s"
  then obtain before ms after where "s = before @ concat ms @ after" "accepts fl p ms"
    unfolding contains_def by blast
  then show "re_search fl p s \<noteq> None" using re_search_complete [of fl p ms before after] by simp
qed


section \<open>Deduplication: proofs\<close>

lemma deduplicate_loop_unseen:
  "deduplicate_loop seen unique fonts = unique @ unseen seen fonts"
  by (induction fonts arbitrary: seen unique) simp_all

lemma deduplicate_fonts_unseen: "deduplicate_fonts fonts = unseen {} fonts"
  by (simp add: deduplicate_fonts_def deduplicate_loop_unseen)

lemma unseen_urls_fresh: "f \<in> set (unseen seen fs) \<Longrightarrow> url f \<notin> seen"
  by (induction fs arbitrary: seen) (auto split: if_splits)

lemma unseen_subset: "set (unseen seen fs) \<subseteq> set fs"
  by (induction fs arbitrary: seen) auto

lemma unseen_distinct: "distinct (map url (unseen seen fs))"
proof (induction fs arbitrary: seen)
  case Nil
  show ?case by simp
next
  case (Cons f fs)
  have "url f \<notin> url ` set (unseen (insert (url f) seen) fs)"
  proof
    assume "url f \<in> url ` set (unseen (insert (url f) seen) fs)"
    then obtain g where g: "g \<in> set (unseen (insert (url f) seen) fs)" "url g = url f"
      by auto
    from g(1) have "url g \<notin> insert (url f) seen" by (rule unseen_urls_fresh)
    with g(2) show False by simp
  qed
  with Cons show ?case by simp
qed

lemma unseen_subseq: "subseq (unseen seen fs) fs"
  by (induction fs arbitrary: seen) auto

lemma unseen_urls: "url ` set (unseen seen fs) = url ` set fs - seen"
  by (induction fs arbitrary: seen) auto

lemma unseen_fixpoint:
  "distinct (map url fs) \<Longrightarrow> url ` set fs \<inter> seen = {} \<Longrightarrow> unseen seen fs = fs"
  by (induction fs arbitrary: seen) auto

lemma unseen_filter_enumerate:
  "unseen seen fs =
     map snd (filter (\<lambda>(i, f). url f \<notin> seen \<union> url ` set (take (i - n) fs)) (enumerate n fs))"
proof (induction fs arbitrary: seen n)
  case Nil
  show ?case by simp
next
  case (Cons f fs)
  have shift: "\<And>i g. (i, g) \<in> set (enumerate (Suc n) fs) \<Longrightarrow>
      take (i - n) (f # fs) = f # take (i - Suc n) fs"
  proof -
    fix i g
    assume "(i, g) \<in> set (enumerate (Suc n) fs)"
    then have "Suc n \<le> i" by (auto simp: in_set_enumerate_eq)
    then obtain k where "i - n = Suc k" and "i - Suc n = k"
      by (metis Suc_diff_le diff_Suc_Suc)
    then show "take (i - n) (f # fs) = f # take (i - Suc n) fs" by simp
  qed
  show ?case
  proof (cases "url f \<in> seen")
    case True
    have "filter (\<lambda>(i, g). url g \<notin> seen \<union> url ` set (take (i - n) (f # fs)))
            (enumerate (Suc n) fs)
        = filter (\<lambda>(i, g). url g \<notin> seen \<union> url ` set (take (i - Suc n) fs))
            (enumerate (Suc n) fs)"
      using True by (intro filter_cong refl) (auto simp: shift)
    with True Cons [of seen "Suc n"] show ?thesis by simp
  next
    case False
    have "filter (\<lambda>(i, g). url g \<notin> seen \<union> url ` set (take (i - n) (f # fs)))
            (enumerate (Suc n) fs)
        = filter (\<lambda>(i, g). url g \<notin> insert (url f) seen \<union> url ` set (take (i - Suc n) fs))
            (enumerate (Suc n) fs)"
      by (intro filter_cong refl) (auto simp: shift)
    with False Cons [of "insert (url f) seen" "Suc n"] show ?thesis by simp
  qed
qed

lemma find_first_occurrence:
  "f \<in> set (unseen seen fs) \<Longrightarrow> find (\<lambda>g. url g = url f) fs = Some f"
proof (induction fs arbitrary: seen)
  case Nil
  then show ?case by simp
next
  case (Cons g fs)
  show ?case
  proof (cases "url g = url f")
    case True
    have "f = g"
    proof (cases "url g \<in> seen")
      case seen: True
      with Cons.prems have "f \<in> set (unseen seen fs)" by simp
      then have "url f \<notin> seen" by (rule unseen_urls_fresh)
      with seen True show ?thesis by simp
    next
      case False
      with Cons.prems have "f = g \<or> f \<in> set (unseen (insert (url g) seen) fs)" by auto
      moreover have "f \<notin> set (unseen (insert (url g) seen) fs)"
        using unseen_urls_fresh [of f "insert (url g) seen" fs] True by auto
      ultimately show ?thesis by simp
    qed
    then show ?thesis by simp
  next
    case False
    with Cons show ?thesis by (auto split: if_splits)
  qed
qed

lemma unseen_append:
  "unseen seen (xs @ ys) = unseen seen xs @ unseen (seen \<union> url ` set xs) ys"
proof (induction xs arbitrary: seen)
  case Nil
  show ?case by simp
next
  case (Cons a xs)
  show ?case
  proof (cases "url a \<in> seen")
    case True
    then have "seen \<union> url ` set (a # xs) = seen \<union> url ` set xs" by auto
    with True Cons [of seen] show ?thesis by simp
  next
    case False
    have "seen \<union> url ` set (a # xs) = insert (url a) seen \<union> url ` set xs" by auto
    with False Cons [of "insert (url a) seen"] show ?thesis by simp
  qed
qed

lemma unseen_seen_head: "url g \<in> seen \<Longrightarrow> unseen seen (g # ys) = unseen seen ys"
  by simp

text \<open>
  Claim C6. Deduplication is a stable filter. It returns the entries of the input no earlier
  entry of which has the same url: a subsequence of the input (the order of the kept entries
  is the order of the input), with pairwise different urls, with every url of the input,
  each kept entry being the first of the input with its url; an entry whose url occurs
  earlier in the list is dropped, whatever its other fields are.
\<close>

theorem deduplicate_fonts_keeps_first_occurrences:
  "deduplicate_fonts fonts = first_occurrences fonts
   \<and> subseq (deduplicate_fonts fonts) fonts
   \<and> distinct (map url (deduplicate_fonts fonts))
   \<and> url ` set (deduplicate_fonts fonts) = url ` set fonts
   \<and> (\<forall>f \<in> set (deduplicate_fonts fonts). find (\<lambda>g. url g = url f) fonts = Some f)
   \<and> (\<forall>xs g ys. fonts = xs @ g # ys \<and> url g \<in> url ` set xs \<longrightarrow>
         deduplicate_fonts fonts = deduplicate_fonts (xs @ ys))"
proof (intro conjI allI impI ballI)
  show "deduplicate_fonts fonts = first_occurrences fonts"
    using unseen_filter_enumerate [of "{}" fonts 0]
    by (simp add: deduplicate_fonts_unseen first_occurrences_def)
  show "subseq (deduplicate_fonts fonts) fonts"
    by (simp add: deduplicate_fonts_unseen unseen_subseq)
  show "distinct (map url (deduplicate_fonts fonts))"
    by (simp add: deduplicate_fonts_unseen unseen_distinct)
  show "url ` set (deduplicate_fonts fonts) = url ` set fonts"
    by (simp add: deduplicate_fonts_unseen unseen_urls)
next
  fix f
  assume "f \<in> set (deduplicate_fonts fonts)"
  then show "find (\<lambda>g. url g = url f) fonts = Some f"
    by (simp add: deduplicate_fonts_unseen find_first_occurrence)
next
  fix xs g ys
  assume "fonts = xs @ g # ys \<and> url g \<in> url ` set xs"
  then show "deduplicate_fonts fonts = deduplicate_fonts (xs @ ys)"
    by (simp add: deduplicate_fonts_unseen unseen_append)
qed

lemma dedup_example: "deduplicate_fonts [font_a, font_b, font_c, font_a] = [font_a, font_c]"
  by (simp add: deduplicate_fonts_def font_a_def font_b_def font_c_def)

theorem deduplicate_fonts_keeps_first_occurrences_witness:
  "deduplicate_fonts [font_a, font_b, font_c, font_a] = [font_a, font_c]
   \<and> first_occurrences [font_a, font_b, font_c, font_a] = [font_a, font_c]
   \<and> find (\<lambda>g. url g = url font_c) [font_a, font_b, font_c, font_a] = Some font_c
   \<and> url font_b \<in> url ` set [font_a] \<and> family font_b \<noteq> family font_a
   \<and> deduplicate_fonts [font_a, font_b, font_c, font_a] = deduplicate_fonts [font_a, font_c, font_a]"
proof -
  let ?L = "[font_a, font_b, font_c, font_a]"
  note T = deduplicate_fonts_keeps_first_occurrences [of ?L]
  have d: "deduplicate_fonts ?L = [font_a, font_c]" by (rule dedup_example)
  have c: "font_c \<in> set (deduplicate_fonts ?L)" by (simp add: d)
  have b: "url font_b \<in> url ` set [font_a] \<and> family font_b \<noteq> family font_a"
    by (simp add: font_a_def font_b_def)
  from T have "deduplicate_fonts ?L = first_occurrences ?L" by (rule conjunct1)
  with d have 1: "first_occurrences ?L = [font_a, font_c]" by simp
  from T have "\<forall>f \<in> set (deduplicate_fonts ?L). find (\<lambda>g. url g = url f) ?L = Some f"
    by blast
  with c have 2: "find (\<lambda>g. url g = url font_c) ?L = Some font_c" by blast
  from T have "\<forall>xs g ys. ?L = xs @ g # ys \<and> url g \<in> url ` set xs \<longrightarrow>
      deduplicate_fonts ?L = deduplicate_fonts (xs @ ys)" by blast
  then have "?L = [font_a] @ font_b # [font_c, font_a] \<and> url font_b \<in> url ` set [font_a] \<longrightarrow>
      deduplicate_fonts ?L = deduplicate_fonts ([font_a] @ [font_c, font_a])" by blast
  with b have 3: "deduplicate_fonts ?L = deduplicate_fonts [font_a, font_c, font_a]" by simp
  from d 1 2 b 3 show ?thesis by blast
qed

text \<open>
  Claim C9. Deduplication is idempotent: its result has pairwise different urls, and
  deduplicating it again changes nothing.
\<close>

theorem deduplicate_fonts_idempotent:
  "deduplicate_fonts (deduplicate_fonts fonts) = deduplicate_fonts fonts
   \<and> distinct (map url (deduplicate_fonts fonts))"
  by (simp add: deduplicate_fonts_unseen unseen_distinct unseen_fixpoint)

theorem deduplicate_fonts_idempotent_witness:
  "deduplicate_fonts (deduplicate_fonts [font_a, font_b, font_c, font_a]) = [font_a, font_c]
   \<and> distinct (map url [font_a, font_c])"
  using deduplicate_fonts_idempotent [of "[font_a, font_b, font_c, font_a]"]
  by (simp add: dedup_example)


section \<open>Classification\<close>

lemmas char_defs = isspace_def whitespace_def isword_def upper_chars_def lower_chars_def
  other_word_chars_def lower_char_def

lemma search_any_contains:
  "search_any ps s \<longleftrightarrow> (\<exists>p \<in> set ps. contains no_flags p s)"
proof (induction ps)
  case Nil
  show ?case by simp
next
  case (Cons p ps)
  have "search_any (p # ps) s \<longleftrightarrow> re_search no_flags p s \<noteq> None \<or> search_any ps s"
    by simp
  also have "\<dots> \<longleftrightarrow> contains no_flags p s \<or> (\<exists>q \<in> set ps. contains no_flags q s)"
    unfolding re_search_contains Cons.IH ..
  finally show ?case by simp
qed

lemma lower_append: "lower (xs @ ys) = lower xs @ lower ys"
  by (simp add: lower_def)

lemma classify_font_cases:
  "classify_font f =
     (if \<exists>p \<in> set MONO_PATTERNS. contains no_flags p (lower f) then MONOSPACE
      else if \<exists>p \<in> set SANS_PATTERNS. contains no_flags p (lower f) then SANS_SERIF
      else if \<exists>p \<in> set SERIF_PATTERNS. contains no_flags p (lower f) then SERIF
      else UNKNOWN)"
  by (simp add: classify_font_def search_any_contains Let_def)

lemma lower_literal: "lower ''Fira Code'' = ''fira code''"
  by (simp add: lower_def char_defs)

lemma fira_code_accepts:
  "accepts no_flags (lit ''fira'' @ [spaces] @ lit ''code'')
     [''f'', ''i'', ''r'', ''a'', '' '', ''c'', ''o'', ''d'', ''e'']"
  by (simp add: lit_def no_flags_def isspace_def whitespace_def)

text \<open>
  Claim C3. Classification lower-cases the family name and tries the monospace patterns, then
  the sans-serif patterns, then the serif patterns; the category is that of the first list
  with a pattern that the lower-cased name contains, and unknown when there is none. So every
  name with a part that a monospace pattern accepts is monospace, whatever else it contains;
  any name that contains ``Fira Code'' is. The function has a value for every string.
\<close>

theorem classify_font_precedence:
  "classify_font f =
     (if \<exists>p \<in> set MONO_PATTERNS. contains no_flags p (lower f) then MONOSPACE
      else if \<exists>p \<in> set SANS_PATTERNS. contains no_flags p (lower f) then SANS_SERIF
      else if \<exists>p \<in> set SERIF_PATTERNS. contains no_flags p (lower f) then SERIF
      else UNKNOWN)
   \<and> (\<forall>p \<in> set MONO_PATTERNS. \<forall>before m after ms.
         accepts no_flags p ms \<and> lower m = concat ms \<longrightarrow>
         classify_font (before @ m @ after) = MONOSPACE)
   \<and> (\<forall>before after. classify_font (before @ ''Fira Code'' @ after) = MONOSPACE)"
proof (intro conjI ballI allI impI)
  show "classify_font f =
     (if \<exists>p \<in> set MONO_PATTERNS. contains no_flags p (lower f) then MONOSPACE
      else if \<exists>p \<in> set SANS_PATTERNS. contains no_flags p (lower f) then SANS_SERIF
      else if \<exists>p \<in> set SERIF_PATTERNS. contains no_flags p (lower f) then SERIF
      else UNKNOWN)"
    by (rule classify_font_cases)
next
  fix p before m after ms
  assume p: "p \<in> set MONO_PATTERNS" and a: "accepts no_flags p ms \<and> lower m = concat ms"
  then have "contains no_flags p (lower (before @ m @ after))"
    unfolding contains_def lower_append by metis
  with p show "classify_font (before @ m @ after) = MONOSPACE"
    unfolding classify_font_cases by auto
next
  fix before after
  have "contains no_flags (lit ''fira'' @ [spaces] @ lit ''code'')
      (lower (before @ ''Fira Code'' @ after))"
    unfolding contains_def lower_append lower_literal
    using fira_code_accepts
    by (intro exI [of _ "lower before"] exI [of _ "lower after"]
        exI [of _ "[''f'', ''i'', ''r'', ''a'', '' '', ''c'', ''o'', ''d'', ''e'']"]) simp
  moreover have "lit ''fira'' @ [spaces] @ lit ''code'' \<in> set MONO_PATTERNS"
    by (simp add: MONO_PATTERNS_def)
  ultimately show "classify_font (before @ ''Fira Code'' @ after) = MONOSPACE"
    unfolding classify_font_cases by auto
qed

lemma sans_serif_in_name:
  "contains no_flags (lit ''sans'') (lower ''Sans Serif Fira Code'')
   \<and> contains no_flags (lit ''serif'') (lower ''Sans Serif Fira Code'')"
proof -
  have l: "lower ''Sans Serif Fira Code'' = ''sans serif fira code''"
    by (simp add: lower_def char_defs)
  have 1: "re_search no_flags (lit ''sans'') ''sans serif fira code'' \<noteq> None"
    by (simp add: lit_def no_flags_def)
  have 2: "re_search no_flags (lit ''serif'') ''sans serif fira code'' \<noteq> None"
    by (simp add: lit_def no_flags_def)
  from 1 2 show ?thesis unfolding l re_search_contains by simp
qed

theorem classify_font_precedence_witness:
  "classify_font ''Sans Serif Fira Code'' = MONOSPACE
   \<and> contains no_flags (lit ''sans'') (lower ''Sans Serif Fira Code'')
   \<and> contains no_flags (lit ''serif'') (lower ''Sans Serif Fira Code'')
   \<and> lit ''sans'' \<in> set SANS_PATTERNS \<and> lit ''serif'' \<in> set SERIF_PATTERNS
   \<and> classify_font ''Fira Code'' = MONOSPACE
   \<and> classify_font ''Arial'' = SANS_SERIF
   \<and> classify_font ''Georgia'' = SERIF
   \<and> classify_font ''MyFont'' = UNKNOWN"
proof -
  note T = classify_font_precedence [of "''Fira Code''"]
  from T have "\<forall>before after. classify_font (before @ ''Fira Code'' @ after) = MONOSPACE"
    by blast
  then have "classify_font (''Sans Serif '' @ ''Fira Code'' @ []) = MONOSPACE
      \<and> classify_font ([] @ ''Fira Code'' @ []) = MONOSPACE" by blast
  then have 1: "classify_font ''Sans Serif Fira Code'' = MONOSPACE"
    and 2: "classify_font ''Fira Code'' = MONOSPACE" by simp_all
  have 3: "lit ''sans'' \<in> set SANS_PATTERNS \<and> lit ''serif'' \<in> set SERIF_PATTERNS"
    by (simp add: SANS_PATTERNS_def SERIF_PATTERNS_def)
  have 4: "classify_font ''Arial'' = SANS_SERIF"
    by (simp add: classify_font_def lower_def char_defs MONO_PATTERNS_def SANS_PATTERNS_def
        lit_def no_flags_def)
  have 5: "classify_font ''Georgia'' = SERIF"
    by (simp add: classify_font_def lower_def char_defs MONO_PATTERNS_def SANS_PATTERNS_def
        SERIF_PATTERNS_def lit_def no_flags_def)
  have 6: "classify_font ''MyFont'' = UNKNOWN"
    by (simp add: classify_font_def lower_def char_defs MONO_PATTERNS_def SANS_PATTERNS_def
        SERIF_PATTERNS_def lit_def no_flags_def)
  from 1 2 3 4 5 6 sans_serif_in_name show ?thesis by blast
qed


section \<open>The structured path on an example\<close>

lemma search_group_None: "search_group fl p s = None \<longleftrightarrow> re_search fl p s = None"
  by (simp add: search_group_def)

lemma extract_font_url_alt:
  "extract_font_url lib src_value base_url =
     (case search_group no_flags URL_RE src_value of
        None \<Rightarrow> Inr None
      | Some raw_url \<Rightarrow>
          if prefix ''data:'' raw_url then Inr None
          else (case urljoin lib base_url raw_url of
                  Inl e \<Rightarrow> Inl e
                | Inr absolute_url \<Rightarrow>
                    Inr (Some (absolute_url, search_group no_flags FORMAT_RE src_value))))"
  by (auto simp: extract_font_url_def search_group_def Let_def split: option.splits sum.splits)

lemma myfont_properties:
  "read_properties myfont_rule =
     (Some ''MyFont'', ''400'', ''normal'',
      Some ''url('a.ttf') format('truetype'),url('a.woff2') format('woff2')'')"
  by code_simp

lemma myfont_parts:
  "split CHR '','' ''url('a.ttf') format('truetype'),url('a.woff2') format('woff2')''
     = [''url('a.ttf') format('truetype')'', ''url('a.woff2') format('woff2')'']"
  "strip ''url('a.ttf') format('truetype')'' = ''url('a.ttf') format('truetype')''"
  "strip ''url('a.woff2') format('woff2')'' = ''url('a.woff2') format('woff2')''"
  by code_simp+

lemma myfont_groups:
  "search_group no_flags URL_RE ''url('a.ttf') format('truetype')'' = Some ''a.ttf''"
  "search_group no_flags FORMAT_RE ''url('a.ttf') format('truetype')'' = Some ''truetype''"
  "search_group no_flags URL_RE ''url('a.woff2') format('woff2')'' = Some ''a.woff2''"
  "search_group no_flags FORMAT_RE ''url('a.woff2') format('woff2')'' = Some ''woff2''"
  by code_simp+

lemma format_priorities:
  "dict_get format_priority ''woff2'' 5 = 0"
  "dict_get format_priority ''woff'' 5 = 1"
  "dict_get format_priority ''truetype'' 5 = 2"
  "dict_get format_priority ''opentype'' 5 = 3"
  "dict_get format_priority ''embedded-opentype'' 5 = 4"
  by code_simp+

lemma classify_myfont: "classify_font ''MyFont'' = UNKNOWN"
  by code_simp

lemma myfont_rule_parse:
  assumes "urljoin lib myfont_base ''a.ttf'' = Inr ''https://x.test/css/a.ttf''"
    and "urljoin lib myfont_base ''a.woff2'' = Inr ''https://x.test/css/a.woff2''"
  shows "parse_font_face_rule lib myfont_rule myfont_base = Inr [myfont_face]"
  using assms
  by (simp add: parse_font_face_rule_def myfont_properties myfont_parts extract_font_url_alt
      myfont_groups candidate_priority_def format_priorities classify_myfont myfont_face_def
      del: split.simps)

lemma myfont_normalised_properties:
  "read_properties myfont_rule_normalised =
     (Some ''MyFont'', ''400'', ''normal'',
      Some (''url(a.ttf) format('' @ [dquote] @ ''truetype'' @ [dquote]
        @ ''), url(a.woff2) format('' @ [dquote] @ ''woff2'' @ [dquote] @ '')''))"
  by code_simp

lemma myfont_normalised_parts:
  "split CHR '','' (''url(a.ttf) format('' @ [dquote] @ ''truetype'' @ [dquote]
        @ ''), url(a.woff2) format('' @ [dquote] @ ''woff2'' @ [dquote] @ '')'')
     = [''url(a.ttf) format('' @ [dquote] @ ''truetype'' @ [dquote] @ '')'',
        '' url(a.woff2) format('' @ [dquote] @ ''woff2'' @ [dquote] @ '')'']"
  "strip (''url(a.ttf) format('' @ [dquote] @ ''truetype'' @ [dquote] @ '')'')
     = ''url(a.ttf) format('' @ [dquote] @ ''truetype'' @ [dquote] @ '')''"
  "strip ('' url(a.woff2) format('' @ [dquote] @ ''woff2'' @ [dquote] @ '')'')
     = ''url(a.woff2) format('' @ [dquote] @ ''woff2'' @ [dquote] @ '')''"
  by code_simp+

lemma myfont_normalised_groups:
  "search_group no_flags URL_RE (''url(a.ttf) format('' @ [dquote] @ ''truetype'' @ [dquote] @ '')'')
     = Some ''a.ttf''"
  "search_group no_flags FORMAT_RE (''url(a.ttf) format('' @ [dquote] @ ''truetype'' @ [dquote] @ '')'')
     = Some ''truetype''"
  "search_group no_flags URL_RE (''url(a.woff2) format('' @ [dquote] @ ''woff2'' @ [dquote] @ '')'')
     = Some ''a.woff2''"
  "search_group no_flags FORMAT_RE (''url(a.woff2) format('' @ [dquote] @ ''woff2'' @ [dquote] @ '')'')
     = Some ''woff2''"
  by code_simp+

lemma myfont_rule_normalised_parse:
  assumes "urljoin lib myfont_base ''a.ttf'' = Inr ''https://x.test/css/a.ttf''"
    and "urljoin lib myfont_base ''a.woff2'' = Inr ''https://x.test/css/a.woff2''"
  shows "parse_font_face_rule lib myfont_rule_normalised myfont_base = Inr [myfont_face]"
  using assms myfont_normalised_parts myfont_normalised_groups
  by (simp add: parse_font_face_rule_def myfont_normalised_properties
      extract_font_url_alt candidate_priority_def format_priorities
      classify_myfont myfont_face_def del: split.simps)

text \<open>
  Claim C4. The style sheet
  \<^verbatim>\<open>@font-face{font-family:'MyFont';src:url('a.ttf') format('truetype'),url('a.woff2') format('woff2');}\<close>
  scanned with the base url \<^verbatim>\<open>https://x.test/css/s.css\<close> yields exactly one FontFace, with
  the url \<^verbatim>\<open>https://x.test/css/a.woff2\<close>, the format \<^verbatim>\<open>woff2\<close> and the category
  unknown. The structured parser is taken to return the one font-face rule of the text, with
  the two property values as written or as normalised, and the two relative urls are taken to
  resolve against the base as the standard library resolves them.
\<close>

theorem scan_myfont:
  assumes "parseString lib myfont_css = Inr [CSSFontFaceRule rule]"
    and "rule = myfont_rule \<or> rule = myfont_rule_normalised"
    and "urljoin lib myfont_base ''a.ttf'' = Inr ''https://x.test/css/a.ttf''"
    and "urljoin lib myfont_base ''a.woff2'' = Inr ''https://x.test/css/a.woff2''"
  shows "parse_css_for_fonts lib myfont_css myfont_base = Inr [myfont_face]"
proof -
  from assms(2) have "parse_font_face_rule lib rule myfont_base = Inr [myfont_face]"
    using myfont_rule_parse [OF assms(3,4)] myfont_rule_normalised_parse [OF assms(3,4)]
    by blast
  with assms(1) show ?thesis
    by (simp add: parse_css_for_fonts_def try_structured_def)
qed

lemma std_urljoin_myfont:
  "std_urljoin myfont_base ''a.ttf'' = Inr ''https://x.test/css/a.ttf''"
  "std_urljoin myfont_base ''a.woff2'' = Inr ''https://x.test/css/a.woff2''"
  by code_simp+

theorem scan_myfont_witness:
  "parse_css_for_fonts (std_lib (\<lambda>css. Inr [CSSFontFaceRule myfont_rule])) myfont_css myfont_base
     = Inr [myfont_face]
   \<and> parse_css_for_fonts (std_lib (\<lambda>css. Inr [CSSFontFaceRule myfont_rule_normalised]))
       myfont_css myfont_base = Inr [myfont_face]
   \<and> url myfont_face = ''https://x.test/css/a.woff2'' \<and> format myfont_face = Some ''woff2''
   \<and> category myfont_face = UNKNOWN"
proof -
  have 1: "parse_css_for_fonts (std_lib (\<lambda>css. Inr [CSSFontFaceRule myfont_rule]))
      myfont_css myfont_base = Inr [myfont_face]"
    by (rule scan_myfont [where rule = myfont_rule])
      (simp_all add: std_lib_def std_urljoin_myfont)
  have 2: "parse_css_for_fonts (std_lib (\<lambda>css. Inr [CSSFontFaceRule myfont_rule_normalised]))
      myfont_css myfont_base = Inr [myfont_face]"
    by (rule scan_myfont [where rule = myfont_rule_normalised])
      (simp_all add: std_lib_def std_urljoin_myfont)
  from 1 2 show ?thesis by (simp add: myfont_face_def)
qed


section \<open>Source selection\<close>




























section \<open>The scan and its fallback\<close>

lemma parse_rules_step:
  "parse_rules lib base_url (r # rules) fonts =
     (case rule_fonts lib base_url r of
        Inl e \<Rightarrow> (fonts, Some e)
      | Inr found \<Rightarrow> parse_rules lib base_url rules (fonts @ found))"
  by (cases r) (simp_all add: rule_fonts_def)

lemma parse_rules_all_ok:
  "\<forall>r \<in> set rules. rule_ok lib base_url r \<Longrightarrow>
     parse_rules lib base_url rules fonts = (fonts @ rules_fonts lib base_url rules, None)"
proof (induction rules arbitrary: fonts)
  case Nil
  show ?case by (simp add: rules_fonts_def)
next
  case (Cons r rules)
  from Cons.prems obtain fs where fs: "rule_fonts lib base_url r = Inr fs"
    by (auto simp: rule_ok_def)
  from Cons.prems have "\<forall>r \<in> set rules. rule_ok lib base_url r" by simp
  from Cons.IH [OF this, of "fonts @ fs"] fs show ?case
    by (simp add: parse_rules_step rules_fonts_def del: parse_rules.simps)
qed

lemma parse_rules_failure:
  assumes "\<forall>r \<in> set before. rule_ok lib base_url r" and "rule_fonts lib base_url r = Inl e"
  shows "parse_rules lib base_url (before @ r # after) fonts =
     (fonts @ rules_fonts lib base_url before, Some e)"
  using assms(1)
proof (induction before arbitrary: fonts)
  case Nil
  from assms(2) show ?case by (simp add: parse_rules_step rules_fonts_def del: parse_rules.simps)
next
  case (Cons b before)
  from Cons.prems obtain fs where fs: "rule_fonts lib base_url b = Inr fs"
    by (auto simp: rule_ok_def)
  from Cons.prems have "\<forall>r \<in> set before. rule_ok lib base_url r" by simp
  from Cons.IH [OF this, of "fonts @ fs"] fs show ?case
    by (simp add: parse_rules_step rules_fonts_def del: parse_rules.simps)
qed

text \<open>
  Claim C2, as amended. When the structured parser raises, the scan returns what the regex
  scanner returns on the same text. When every rule of the parsed sheet is processed without
  an exception, the scan returns the FontFaces of the rules. When the processing of a rule
  raises, the FontFaces of the rules before it are kept and those of the regex scanner are
  appended to them. An exception raised on the structured path never reaches the caller: if
  the scan raises, the regex scanner has raised that exception.
\<close>

theorem scan_fallback:
  "(\<forall>e. parseString lib css_text = Inl e \<longrightarrow>
      parse_css_for_fonts lib css_text base_url = parse_css_with_regex lib css_text base_url)
   \<and> (\<forall>sheet. parseString lib css_text = Inr sheet \<and> (\<forall>r \<in> set sheet. rule_ok lib base_url r) \<longrightarrow>
      parse_css_for_fonts lib css_text base_url = Inr (rules_fonts lib base_url sheet))
   \<and> (\<forall>before r after e. parseString lib css_text = Inr (before @ r # after)
        \<and> (\<forall>b \<in> set before. rule_ok lib base_url b) \<and> rule_fonts lib base_url r = Inl e \<longrightarrow>
      parse_css_for_fonts lib css_text base_url =
        (case parse_css_with_regex lib css_text base_url of
           Inl e' \<Rightarrow> Inl e'
         | Inr fallback \<Rightarrow> Inr (rules_fonts lib base_url before @ fallback)))
   \<and> (\<forall>e. parse_css_for_fonts lib css_text base_url = Inl e \<longrightarrow>
      parse_css_with_regex lib css_text base_url = Inl e)"
proof (intro conjI allI impI)
  fix e
  assume "parseString lib css_text = Inl e"
  then show "parse_css_for_fonts lib css_text base_url = parse_css_with_regex lib css_text base_url"
    by (simp add: parse_css_for_fonts_def try_structured_def split: sum.splits)
next
  fix sheet
  assume "parseString lib css_text = Inr sheet \<and> (\<forall>r \<in> set sheet. rule_ok lib base_url r)"
  then show "parse_css_for_fonts lib css_text base_url = Inr (rules_fonts lib base_url sheet)"
    by (simp add: parse_css_for_fonts_def try_structured_def parse_rules_all_ok)
next
  fix before r after e
  assume "parseString lib css_text = Inr (before @ r # after)
        \<and> (\<forall>b \<in> set before. rule_ok lib base_url b) \<and> rule_fonts lib base_url r = Inl e"
  then show "parse_css_for_fonts lib css_text base_url =
        (case parse_css_with_regex lib css_text base_url of
           Inl e' \<Rightarrow> Inl e'
         | Inr fallback \<Rightarrow> Inr (rules_fonts lib base_url before @ fallback))"
    by (simp add: parse_css_for_fonts_def try_structured_def parse_rules_failure)
next
  fix e
  assume "parse_css_for_fonts lib css_text base_url = Inl e"
  then show "parse_css_with_regex lib css_text base_url = Inl e"
    by (auto simp: parse_css_for_fonts_def split: prod.splits option.splits sum.splits)
qed

lemma two_rules_fallback:
  "parse_css_with_regex (std_lib two_rules_parser) two_rules_css myfont_base = Inr [face_A]"
  by code_simp

lemma two_rules_first:
  "rule_fonts (std_lib two_rules_parser) myfont_base
     (CSSFontFaceRule [(''font-family'', ''A''), (''src'', ''url(a.woff2)'')]) = Inr [face_A]"
  by code_simp

lemma two_rules_second:
  "rule_fonts (std_lib two_rules_parser) myfont_base
     (CSSFontFaceRule [(''font-family'', ''B''), (''src'', ''url(//[x)'')])
     = Inl (Exception ''Invalid IPv6 URL'')"
  by code_simp

text \<open>
  The FontFaces found before the failure are not ignored: the first rule of the sheet gives a
  FontFace, the second raises, the regex scanner finds the first block again and skips the
  second, and the scan returns the FontFace twice.
\<close>

theorem scan_keeps_partial_result_counterexample:
  "parse_css_for_fonts (std_lib two_rules_parser) two_rules_css myfont_base = Inr [face_A, face_A]
   \<and> parse_css_with_regex (std_lib two_rules_parser) two_rules_css myfont_base = Inr [face_A]
   \<and> try_structured (std_lib two_rules_parser) two_rules_css myfont_base
       = ([face_A], Some (Exception ''Invalid IPv6 URL''))"
  by code_simp


lemma no_parser_fallback:
  "parse_css_with_regex (std_lib no_parser) two_rules_css myfont_base = Inr [face_A]"
  by code_simp

theorem scan_fallback_witness:
  "parseString (std_lib no_parser) two_rules_css = Inl (Exception ''no parser'')
   \<and> parse_css_for_fonts (std_lib no_parser) two_rules_css myfont_base = Inr [face_A]
   \<and> parse_css_with_regex (std_lib no_parser) two_rules_css myfont_base = Inr [face_A]
   \<and> parseString (std_lib two_rules_parser) two_rules_css = Inr two_rules_sheet
   \<and> parse_css_for_fonts (std_lib two_rules_parser) two_rules_css myfont_base
       = Inr ([face_A] @ [face_A])"
proof -
  let ?L = "std_lib no_parser" and ?M = "std_lib two_rules_parser"
  let ?a = "CSSFontFaceRule [(''font-family'', ''A''), (''src'', ''url(a.woff2)'')]"
  let ?b = "CSSFontFaceRule [(''font-family'', ''B''), (''src'', ''url(//[x)'')]"
  have p: "parseString ?L two_rules_css = Inl (Exception ''no parser'')"
    by (simp add: std_lib_def no_parser_def)
  from scan_fallback [of ?L two_rules_css myfont_base] p
  have "parse_css_for_fonts ?L two_rules_css myfont_base
      = parse_css_with_regex ?L two_rules_css myfont_base" by blast
  then have 1: "parse_css_for_fonts ?L two_rules_css myfont_base = Inr [face_A]"
    by (simp add: no_parser_fallback)
  have q: "parseString ?M two_rules_css = Inr ([?a] @ ?b # [])"
    by (simp add: std_lib_def two_rules_parser_def two_rules_sheet_def)
  have ok: "\<forall>b \<in> set [?a]. rule_ok ?M myfont_base b"
    by (simp add: rule_ok_def two_rules_first)
  have "parseString ?M two_rules_css = Inr ([?a] @ ?b # [])
        \<and> (\<forall>b \<in> set [?a]. rule_ok ?M myfont_base b)
        \<and> rule_fonts ?M myfont_base ?b = Inl (Exception ''Invalid IPv6 URL'') \<longrightarrow>
      parse_css_for_fonts ?M two_rules_css myfont_base =
        (case parse_css_with_regex ?M two_rules_css myfont_base of
           Inl e' \<Rightarrow> Inl e'
         | Inr fallback \<Rightarrow> Inr (rules_fonts ?M myfont_base [?a] @ fallback))"
    using scan_fallback [of ?M two_rules_css myfont_base] by blast
  with q ok two_rules_second
  have "parse_css_for_fonts ?M two_rules_css myfont_base =
        (case parse_css_with_regex ?M two_rules_css myfont_base of
           Inl e' \<Rightarrow> Inl e'
         | Inr fallback \<Rightarrow> Inr (rules_fonts ?M myfont_base [?a] @ fallback))"
    by blast
  then have 2: "parse_css_for_fonts ?M two_rules_css myfont_base = Inr ([face_A] @ [face_A])"
    by (simp add: two_rules_fallback rules_fonts_def two_rules_first)
  have q': "parseString ?M two_rules_css = Inr two_rules_sheet"
    by (simp add: std_lib_def two_rules_parser_def)
  from p 1 no_parser_fallback q' 2 show ?thesis by blast
qed


section \<open>Blocks of the regex scanner\<close>

text \<open>A greedy run stops at the first character that its atom does not match.\<close>

lemma rmatch_star_run:
  assumes "quant_of i = Star" and "list_all (atom_match fl (atom_of i)) m"
    and "\<not> atom_match fl (atom_of i) d" and "rmatch fl p (d # s) = Some (ms, rest)"
  shows "rmatch fl (i # p) (m @ d # s) = Some (m # ms, rest)"
  using assms(2)
proof (induction m)
  case Nil
  from assms(1,3,4) show ?case by simp
next
  case (Cons c m)
  then have "rmatch fl (i # p) (m @ d # s) = Some (m # ms, rest)" by simp
  with Cons.prems assms(1) show ?case by simp
qed

lemma rmatch_plus_run:
  assumes "quant_of i = Plus" and "list_all (atom_match fl (atom_of i)) m" and "m \<noteq> []"
    and "\<not> atom_match fl (atom_of i) d" and "rmatch fl p (d # s) = Some (ms, rest)"
  shows "rmatch fl (i # p) (m @ d # s) = Some (m # ms, rest)"
proof -
  from assms(3) obtain c m' where m: "m = c # m'" by (cases m) auto
  have "rmatch fl (It (atom_of i) Star # p) (m' @ d # s) = Some (m' # ms, rest)"
    using assms(2,4,5) m by (intro rmatch_star_run) auto
  with assms(1,2) m show ?thesis by simp
qed

lemma rmatch_lit:
  "rmatch fl (lit w @ p) (w @ s) =
      map_option (\<lambda>(ms, rest). (map (\<lambda>c. [c]) w @ ms, rest)) (rmatch fl p s)"
proof (induction w)
  case Nil
  show ?case by (simp add: lit_def option.map_ident)
next
  case (Cons c w)
  then show ?case
    by (cases "rmatch fl p s") (auto simp: lit_def)
qed














section \<open>The fallback path on an example\<close>






lemma broken_css_shape:
  "broken_css = ''p { color: red; '' @ georgia_block @ '' a { color: blue }''
   \<and> CHR ''@'' \<notin> set ''p { color: red; ''"
  by (simp add: broken_css_def)




section \<open>Declarations without a semicolon\<close>

lemma accepts_Nil: "accepts fl [] ms \<longleftrightarrow> ms = []"
  by (cases ms) auto

lemma accepts_Cons:
  "accepts fl (i # p) ms \<longleftrightarrow>
     (\<exists>m ms'. ms = m # ms' \<and> list_all (atom_match fl (atom_of i)) m
        \<and> quant_ok (quant_of i) (length m) \<and> accepts fl p ms')"
  by (cases ms) auto

























section \<open>Data URIs\<close>



lemma url_tail:
  assumes "set q' \<subseteq> {squote, dquote}" and "length q' \<le> 1"
  shows "rmatch no_flags [quote_opt, It (Lit CHR '')'') One] (q' @ CHR '')'' # rest)
     = Some ([q', '')''], rest)"
proof (cases q')
  case Nil
  then show ?thesis by (simp add: quote_opt_def no_flags_def)
next
  case (Cons c cs)
  with assms have "cs = []" "c = squote \<or> c = dquote" by auto
  with Cons show ?thesis by (auto simp: quote_opt_def no_flags_def)
qed

lemma url_token:
  assumes "set q' \<subseteq> {squote, dquote}" and "length q' \<le> 1"
    and "list_all token_char m" and "m \<noteq> []"
  shows "rmatch no_flags [token_group, quote_opt, It (Lit CHR '')'') One]
       (m @ q' @ CHR '')'' # rest) = Some ([m, q', '')''], rest)"
proof -
  obtain d s where d: "q' @ CHR '')'' # rest = d # s" "d = squote \<or> d = dquote \<or> d = CHR '')''"
    using assms(1) by (cases q') auto
  have cls: "atom_match no_flags (atom_of token_group) = token_char"
    by (rule ext) (auto simp: token_group_def token_char_def)
  have tail: "rmatch no_flags [quote_opt, It (Lit CHR '')'') One] (d # s) = Some ([q', '')''], rest)"
    using url_tail [OF assms(1,2), of rest] unfolding d(1) .
  have 1: "quant_of token_group = Plus" by (simp add: token_group_def)
  have 2: "list_all (atom_match no_flags (atom_of token_group)) m"
    using assms(3) by (simp only: cls)
  have 3: "\<not> atom_match no_flags (atom_of token_group) d"
    using d(2) by (auto simp: cls token_char_def)
  show ?thesis
    using rmatch_plus_run [OF 1 2 assms(4) 3 tail] unfolding d(1) .
qed

lemma url_match:
  assumes "set q \<subseteq> {squote, dquote}" and "length q \<le> 1"
    and "set q' \<subseteq> {squote, dquote}" and "length q' \<le> 1"
    and "list_all token_char m" and "m \<noteq> []"
  shows "search_group no_flags URL_RE (''url('' @ q @ m @ q' @ '')'' @ rest) = Some m"
proof -
  let ?p = "[token_group, quote_opt, It (Lit CHR '')'') One]"
  have t: "rmatch no_flags ?p (m @ q' @ CHR '')'' # rest) = Some ([m, q', '')''], rest)"
    by (rule url_token [OF assms(3-6)])
  obtain c cs where m: "m = c # cs" "token_char c" using assms(5,6) by (cases m) auto
  have "rmatch no_flags (quote_opt # ?p) (q @ m @ q' @ CHR '')'' # rest)
      = Some ([q, m, q', '')''], rest)"
  proof (cases q)
    case Nil
    with t m show ?thesis by (simp add: quote_opt_def token_char_def)
  next
    case (Cons x xs)
    with assms(1,2) have "xs = []" "x = squote \<or> x = dquote" by auto
    with Cons t show ?thesis by (auto simp: quote_opt_def)
  qed
  then have "rmatch no_flags (lit ''url('' @ quote_opt # ?p)
      (''url('' @ q @ m @ q' @ CHR '')'' # rest)
      = Some (map (\<lambda>c. [c]) ''url('' @ [q, m, q', '')''], rest)"
    unfolding rmatch_lit by simp
  then have "rmatch no_flags URL_RE (''url('' @ q @ m @ q' @ '')'' @ rest)
      = Some (map (\<lambda>c. [c]) ''url('' @ [q, m, q', '')''], rest)"
    by (simp add: URL_RE_def)
  then have "re_search no_flags URL_RE (''url('' @ q @ m @ q' @ '')'' @ rest)
      = Some ([], map (\<lambda>c. [c]) ''url('' @ [q, m, q', '')''], rest)"
    by (rule re_search_here)
  then show ?thesis
    by (simp add: search_group_def URL_RE_def lit_def quote_opt_def token_group_def)
qed






















section \<open>File names\<close>

subsection \<open>Substitution\<close>

lemma re_sub_here:
  assumes "rmatch fl p s = Some (ms, rest)" and "length rest < length s"
  shows "re_sub fl p repl s = repl @ re_sub fl p repl rest"
  using assms re_search_here [OF assms(1)] by (subst re_sub.simps) simp

lemma re_search_rest_shorter:
  assumes "re_search fl p s = Some (before, ms, rest)" and "concat ms \<noteq> []"
  shows "length rest < length s"
proof -
  from re_search_sound [OF assms(1)] have "s = before @ concat ms @ rest" by simp
  then have "length s = length before + length (concat ms) + length rest" by (metis length_append add.assoc)
  with assms(2) show ?thesis by (cases "concat ms") auto
qed

lemma re_sub_skip:
  assumes "rmatch fl p (c # cs) = None"
    and "\<And>before ms rest. re_search fl p cs = Some (before, ms, rest) \<Longrightarrow> concat ms \<noteq> []"
  shows "re_sub fl p repl (c # cs) = c # re_sub fl p repl cs"
proof (cases "re_search fl p cs")
  case None
  with assms(1) have "re_search fl p (c # cs) = None" by simp
  with None show ?thesis by (simp add: re_sub.simps)
next
  case (Some r)
  obtain before ms rest where r: "r = (before, ms, rest)" by (cases r)
  from Some r have s: "re_search fl p cs = Some (before, ms, rest)" by simp
  from assms(2) [OF s] have ne: "concat ms \<noteq> []" .
  from re_search_rest_shorter [OF s ne] have l: "length rest < length cs" .
  from s assms(1) have s': "re_search fl p (c # cs) = Some (c # before, ms, rest)" by simp
  have "re_sub fl p repl (c # cs) = (c # before) @ repl @ re_sub fl p repl rest"
    using s' l by (subst re_sub.simps) simp
  moreover have "re_sub fl p repl cs = before @ repl @ re_sub fl p repl rest"
    using s l by (subst re_sub.simps) simp
  ultimately show ?thesis by simp
qed

lemma single_item_nonempty:
  assumes "re_search fl [i] s = Some (before, ms, rest)"
    and "quant_of i = One \<or> quant_of i = Plus"
  shows "concat ms \<noteq> []"
proof -
  from re_search_sound [OF assms(1)] have "accepts fl [i] ms" by simp
  then obtain m where "ms = [m]" "quant_ok (quant_of i) (length m)"
    by (cases ms) (auto simp: accepts_Nil)
  with assms(2) show ?thesis by auto
qed

lemma re_sub_one:
  "re_sub fl [It a One] repl s = concat (map (\<lambda>c. if atom_match fl a c then repl else [c]) s)"
proof (induction s)
  case Nil
  show ?case by (simp add: re_sub.simps)
next
  case (Cons c cs)
  show ?case
  proof (cases "atom_match fl a c")
    case True
    then have "rmatch fl [It a One] (c # cs) = Some ([[c]], cs)" by simp
    from re_sub_here [OF this] True Cons show ?thesis by simp
  next
    case False
    then have "rmatch fl [It a One] (c # cs) = None" by simp
    from re_sub_skip [OF this] single_item_nonempty [of fl "It a One" cs] False Cons
    show ?thesis by simp
  qed
qed

lemma rmatch_star_only:
  assumes "quant_of i = Star"
  shows "rmatch fl [i] s =
     Some ([takeWhile (atom_match fl (atom_of i)) s], dropWhile (atom_match fl (atom_of i)) s)"
  using assms by (induction s) auto

lemma rmatch_plus_only:
  "rmatch fl [It a Plus] (c # cs) =
     (if atom_match fl a c
      then Some ([c # takeWhile (atom_match fl a) cs], dropWhile (atom_match fl a) cs)
      else None)"
  using rmatch_star_only [of "It a Star" fl cs] by simp

lemma re_sub_plus:
  "re_sub fl [It a Plus] repl s = squeeze (atom_match fl a) repl s"
proof (induction "atom_match fl a" repl s rule: squeeze.induct)
  case (1 repl)
  show ?case by (simp add: re_sub.simps)
next
  case (2 repl c cs)
  show ?case
  proof (cases "atom_match fl a c")
    case True
    then have m: "rmatch fl [It a Plus] (c # cs) =
        Some ([c # takeWhile (atom_match fl a) cs], dropWhile (atom_match fl a) cs)"
      by (simp only: rmatch_plus_only if_True)
    have l: "length (dropWhile (atom_match fl a) cs) < length (c # cs)"
      using length_dropWhile_le [of "atom_match fl a" cs] by simp
    from re_sub_here [OF m l] True 2 show ?thesis by simp
  next
    case False
    then have "rmatch fl [It a Plus] (c # cs) = None" by (simp only: rmatch_plus_only if_False)
    from re_sub_skip [OF this] single_item_nonempty [of fl "It a Plus" cs] False 2
    show ?thesis by simp
  qed
qed

lemma safe_family: "re_sub no_flags UNSAFE_RE ''_'' s = sanitized_family s"
proof -
  have "\<And>c. atom_match no_flags (NotIn [Wd, Ch CHR ''-'']) c \<longleftrightarrow> \<not> kept_char c"
    by (simp add: kept_char_def)
  then show ?thesis
    unfolding UNSAFE_RE_def re_sub_one sanitized_family_def
    by (induction s) auto
qed

lemma safe_weight: "re_sub no_flags SPACES_RE ''_'' s = sanitized_weight s"
proof -
  have "atom_match no_flags (In [Sp]) = isspace" by (rule ext) simp
  then show ?thesis unfolding SPACES_RE_def re_sub_plus sanitized_weight_def by simp
qed

subsection \<open>The parts of the name\<close>

lemma split_nonempty: "split sep s \<noteq> []"
  by (induction s) (auto split: list.splits)

lemma hd_split: "hd (split sep s) = takeWhile (\<lambda>c. c \<noteq> sep) s"
  by (induction s) (auto split: list.splits simp: split_nonempty)

lemma split_parts_chars: "x \<in> set (split sep s) \<Longrightarrow> sep \<notin> set x \<and> set x \<subseteq> set s"
proof (induction s arbitrary: x)
  case Nil
  then show ?case by simp
next
  case (Cons c cs)
  show ?case
  proof (cases "c = sep")
    case True
    with Cons.prems have "x = [] \<or> x \<in> set (split sep cs)" by simp
    with Cons.IH show ?thesis by auto
  next
    case False
    obtain p ps where ps: "split sep cs = p # ps"
      using split_nonempty [of sep cs] by (cases "split sep cs") auto
    with False Cons.prems have "x = c # p \<or> x \<in> set ps" by simp
    then show ?thesis
    proof
      assume "x = c # p"
      moreover from Cons.IH [of p] ps have "sep \<notin> set p \<and> set p \<subseteq> set cs" by simp
      ultimately show ?thesis using False by auto
    next
      assume "x \<in> set ps"
      with ps have "x \<in> set (split sep cs)" by simp
      with Cons.IH show ?thesis by auto
    qed
  qed
qed

lemma split_without_sep: "sep \<notin> set s \<Longrightarrow> split sep s = [s]"
  by (induction s) auto

lemma path_name_parts:
  "path_name p = [] \<or>
     (path_name p \<in> set (split CHR ''/'' p) \<and> path_name p \<noteq> [] \<and> path_name p \<noteq> ''.'')"
proof (cases "filter (\<lambda>x. x \<noteq> [] \<and> x \<noteq> ''.'') (split CHR ''/'' p)")
  case Nil
  then show ?thesis by (simp add: path_name_def)
next
  case (Cons x xs)
  then have "path_name p = last (filter (\<lambda>x. x \<noteq> [] \<and> x \<noteq> ''.'') (split CHR ''/'' p))"
    by (simp add: path_name_def)
  moreover have "last (filter (\<lambda>x. x \<noteq> [] \<and> x \<noteq> ''.'') (split CHR ''/'' p))
      \<in> set (filter (\<lambda>x. x \<noteq> [] \<and> x \<noteq> ''.'') (split CHR ''/'' p))"
    using Cons by (intro last_in_set) simp
  ultimately show ?thesis by auto
qed

lemma path_name_chars: "CHR ''/'' \<notin> set (path_name p) \<and> set (path_name p) \<subseteq> set p"
  using path_name_parts [of p] split_parts_chars [of "path_name p" "CHR ''/''" p] by auto

lemma path_name_idem: "path_name (path_name p) = path_name p"
proof (cases "path_name p = []")
  case True
  then show ?thesis by (simp add: path_name_def)
next
  case False
  with path_name_parts [of p] have "path_name p \<noteq> ''.''" by auto
  moreover have "split CHR ''/'' (path_name p) = [path_name p]"
    using path_name_chars by (intro split_without_sep) simp
  ultimately show ?thesis using False by (subst (1) path_name_def) simp
qed

lemma path_suffix_name: "path_suffix (path_name p) = path_suffix p"
  by (simp add: path_suffix_def path_name_idem)

lemma original_name_eq:
  "(if CHR ''?'' \<in> set n then hd (split CHR ''?'' n) else n)
     = takeWhile (\<lambda>c. c \<noteq> CHR ''?'') n"
proof (cases "CHR ''?'' \<in> set n")
  case True
  then show ?thesis by (simp only: hd_split if_True)
next
  case False
  then have "takeWhile (\<lambda>c. c \<noteq> CHR ''?'') n = n"
    by (intro takeWhile_eq_all_conv [THEN iffD2]) auto
  with False show ?thesis by (simp only: if_False)
qed

lemma font_filename_alt:
  "font_filename f p i =
     sanitized_family (family f) @ ''-'' @ sanitized_weight (weight f) @ ''-'' @ style f @ ''-''
       @ format_02d i @ extension (takeWhile (\<lambda>c. c \<noteq> CHR ''?'') (path_name p))"
  unfolding font_filename_def Let_def original_name_eq safe_family safe_weight extension_def ..

lemma extension_of_path:
  assumes "CHR ''?'' \<notin> set p"
  shows "extension (takeWhile (\<lambda>c. c \<noteq> CHR ''?'') (path_name p)) = extension p"
proof -
  from assms path_name_chars [of p] have "CHR ''?'' \<notin> set (path_name p)" by auto
  then have "takeWhile (\<lambda>c. c \<noteq> CHR ''?'') (path_name p) = path_name p"
    by (intro takeWhile_eq_all_conv [THEN iffD2]) auto
  then have "extension (takeWhile (\<lambda>c. c \<noteq> CHR ''?'') (path_name p))
      = extension (path_name p)" by (simp only:)
  also have "\<dots> = extension p" unfolding extension_def path_suffix_name ..
  finally show ?thesis .
qed

lemma str_nat_small: "n < 10 \<Longrightarrow> str_nat n = [digit_char n]"
  by (subst str_nat.simps) simp

lemma str_nat_step: "10 \<le> n \<Longrightarrow> str_nat n = str_nat (n div 10) @ [digit_char (n mod 10)]"
  by (subst str_nat.simps) simp

lemma str_nat_length: "1 \<le> length (str_nat n)"
  by (cases "n < 10") (simp_all add: str_nat_small str_nat_step)

lemma str_nat_length2: "10 \<le> n \<Longrightarrow> 2 \<le> length (str_nat n)"
  using str_nat_length [of "n div 10"] by (simp add: str_nat_step)

lemma str_nat_length3: "100 \<le> n \<Longrightarrow> 3 \<le> length (str_nat n)"
  using str_nat_length2 [of "n div 10"] by (simp add: str_nat_step)

lemma format_02d_cases:
  "format_02d n =
     (if n < 10 then [CHR ''0'', digit_char n]
      else if n < 100 then [digit_char (n div 10), digit_char (n mod 10)]
      else str_nat n)"
proof (cases "n < 10")
  case True
  then show ?thesis by (simp add: format_02d_def str_nat_small)
next
  case False
  then have l: "2 \<le> length (str_nat n)" by (intro str_nat_length2) simp
  show ?thesis
  proof (cases "n < 100")
    case True
    with False have "n div 10 < 10" by simp
    with False l show ?thesis
      by (simp add: format_02d_def str_nat_step str_nat_small True)
  next
    case big: False
    with False l show ?thesis by (simp add: format_02d_def)
  qed
qed

lemma download_font_success:
  assumes "success (download_font lib f output_dir i)"
  shows "\<exists>content p. client_get lib (url f) = Inr content \<and> urlparse_path lib (url f) = Inr p
      \<and> write_bytes lib (output_dir @ ''/'' @ font_filename f p i) content = Inr ()
      \<and> path (download_font lib f output_dir i) = Some (output_dir, font_filename f p i)"
  using assms
  by (auto simp: download_font_def failed_def Let_def split: sum.splits py_error.splits)

lemma download_all_nth:
  assumes "i < length (filter_fonts (deduplicate_fonts collected) categories)"
  shows "download_all lib collected categories output_dir ! i =
     download_font lib (filter_fonts (deduplicate_fonts collected) categories ! i) output_dir i"
  using assms by (simp add: download_all_def Let_def nth_enumerate_eq)

lemma kept_char_classes:
  "kept_char c \<longleftrightarrow> c \<in> set ascii_safe \<or> c \<in> set non_ascii_word_chars"
proof
  assume "kept_char c"
  then show "c \<in> set ascii_safe \<or> c \<in> set non_ascii_word_chars"
    unfolding kept_char_def isword_def upper_chars_def lower_chars_def other_word_chars_def
      ascii_safe_def non_ascii_word_chars_def
    by auto
next
  assume "c \<in> set ascii_safe \<or> c \<in> set non_ascii_word_chars"
  then show "kept_char c"
    unfolding kept_char_def isword_def upper_chars_def lower_chars_def other_word_chars_def
      ascii_safe_def non_ascii_word_chars_def
    by auto
qed

lemma sanitized_family_ascii:
  assumes "\<forall>c \<in> set s. c \<notin> set non_ascii_word_chars"
  shows "sanitized_family s = claimed_family s"
  using assms by (induction s) (auto simp: sanitized_family_def claimed_family_def kept_char_classes)

subsection \<open>The name of a downloaded file\<close>

text \<open>
  Claim C7, as amended. A successful download has fetched the font, and has written it in
  the output directory under the name that \<^verbatim>\<open>font_filename\<close> gives for the path of the font's
  url; that name is the sanitized family, the sanitized weight, the style, the index and the
  extension, joined by hyphens before the extension. In the family every character that is
  neither a word character nor a hyphen becomes an underscore, and the word characters
  include letters and digits beyond ASCII; for a family with none of those, the characters
  kept are exactly those of \<^verbatim>\<open>[A-Za-z0-9_-]\<close>. In the weight every run of white space becomes
  one underscore. The extension is the suffix of the last component of the url's path, and
  \<^verbatim>\<open>.woff2\<close> when it has none. The index is written with two digits when it is below 100
  and with all its digits otherwise, and it is the position, from zero, of the font in the
  deduplicated and filtered list.
\<close>

theorem download_file_name:
  "(\<forall>p. font_filename f p i =
      sanitized_family (family f) @ ''-'' @ sanitized_weight (weight f) @ ''-'' @ style f @ ''-''
        @ format_02d i @ extension (takeWhile (\<lambda>c. c \<noteq> CHR ''?'') (path_name p)))
   \<and> (\<forall>p. CHR ''?'' \<notin> set p \<longrightarrow>
        extension (takeWhile (\<lambda>c. c \<noteq> CHR ''?'') (path_name p)) = extension p)
   \<and> ((\<forall>c \<in> set (family f). c \<notin> set non_ascii_word_chars) \<longrightarrow>
        sanitized_family (family f) = claimed_family (family f))
   \<and> format_02d i =
       (if i < 10 then [CHR ''0'', digit_char i]
        else if i < 100 then [digit_char (i div 10), digit_char (i mod 10)]
        else str_nat i)
   \<and> (success (download_font lib f output_dir i) \<longrightarrow>
        (\<exists>content p. client_get lib (url f) = Inr content \<and> urlparse_path lib (url f) = Inr p
           \<and> write_bytes lib (output_dir @ ''/'' @ font_filename f p i) content = Inr ()
           \<and> path (download_font lib f output_dir i) = Some (output_dir, font_filename f p i)))
   \<and> (\<forall>collected categories k.
        k < length (filter_fonts (deduplicate_fonts collected) categories) \<longrightarrow>
        download_all lib collected categories output_dir ! k =
          download_font lib (filter_fonts (deduplicate_fonts collected) categories ! k)
            output_dir k)"
proof (intro conjI allI impI)
  fix p
  show "font_filename f p i =
      sanitized_family (family f) @ ''-'' @ sanitized_weight (weight f) @ ''-'' @ style f @ ''-''
        @ format_02d i @ extension (takeWhile (\<lambda>c. c \<noteq> CHR ''?'') (path_name p))"
    by (rule font_filename_alt)
next
  fix p
  assume "CHR ''?'' \<notin> set p"
  then show "extension (takeWhile (\<lambda>c. c \<noteq> CHR ''?'') (path_name p)) = extension p"
    by (rule extension_of_path)
next
  assume "\<forall>c \<in> set (family f). c \<notin> set non_ascii_word_chars"
  then show "sanitized_family (family f) = claimed_family (family f)"
    by (rule sanitized_family_ascii)
next
  show "format_02d i =
       (if i < 10 then [CHR ''0'', digit_char i]
        else if i < 100 then [digit_char (i div 10), digit_char (i mod 10)]
        else str_nat i)"
    by (rule format_02d_cases)
next
  assume "success (download_font lib f output_dir i)"
  then show "\<exists>content p. client_get lib (url f) = Inr content \<and> urlparse_path lib (url f) = Inr p
           \<and> write_bytes lib (output_dir @ ''/'' @ font_filename f p i) content = Inr ()
           \<and> path (download_font lib f output_dir i) = Some (output_dir, font_filename f p i)"
    by (rule download_font_success)
next
  fix collected categories k
  assume "k < length (filter_fonts (deduplicate_fonts collected) categories)"
  then show "download_all lib collected categories output_dir ! k =
          download_font lib (filter_fonts (deduplicate_fonts collected) categories ! k)
            output_dir k"
    by (rule download_all_nth)
qed

lemma open_sans_run:
  "download_font (std_lib no_parser) open_sans ''out'' 7 =
     \<lparr>font = open_sans, success = True,
      path = Some (''out'', ''Open_Sans_-300_800-italic-07.woff2''), error = None\<rparr>"
  "urlparse_path (std_lib no_parser) (url open_sans) = Inr ''/fonts/os''"
  "sanitized_family (family open_sans) = ''Open_Sans_''"
  "claimed_family (family open_sans) = ''Open_Sans_''"
  "sanitized_weight (weight open_sans) = ''300_800''"
  "extension ''/fonts/os'' = ''.woff2''"
  "extension ''/fonts/cafe.WOFF'' = ''.WOFF''"
  "format_02d 7 = ''07''"
  "format_02d 42 = ''42''"
  "format_02d 123 = ''123''"
  "download_all (std_lib no_parser) [cafe, open_sans, cafe] (Some {SANS_SERIF}) ''out'' =
     [\<lparr>font = open_sans, success = True,
       path = Some (''out'', ''Open_Sans_-300_800-italic-00.woff2''), error = None\<rparr>]"
  by code_simp+

text \<open>The theorem at a font whose family and weight need sanitizing and whose url path has
  no suffix.\<close>

theorem download_file_name_witness:
  "success (download_font (std_lib no_parser) open_sans ''out'' 7)
   \<and> path (download_font (std_lib no_parser) open_sans ''out'' 7)
       = Some (''out'', font_filename open_sans ''/fonts/os'' 7)
   \<and> font_filename open_sans ''/fonts/os'' 7 = ''Open_Sans_-300_800-italic-07.woff2''
   \<and> sanitized_family (family open_sans) = claimed_family (family open_sans)
   \<and> format_02d 7 = ''07'' \<and> format_02d 42 = ''42'' \<and> format_02d 123 = ''123''
   \<and> extension ''/fonts/os'' = ''.woff2'' \<and> extension ''/fonts/cafe.WOFF'' = ''.WOFF''
   \<and> download_all (std_lib no_parser) [cafe, open_sans, cafe] (Some {SANS_SERIF}) ''out'' =
     [\<lparr>font = open_sans, success = True,
       path = Some (''out'', ''Open_Sans_-300_800-italic-00.woff2''), error = None\<rparr>]"
proof -
  let ?L = "std_lib no_parser"
  note T = download_file_name [of open_sans 7 ?L "''out''"]
  have s: "success (download_font ?L open_sans ''out'' 7)" by (simp add: open_sans_run(1))
  with T obtain p where p: "urlparse_path ?L (url open_sans) = Inr p"
    and pa: "path (download_font ?L open_sans ''out'' 7) = Some (''out'', font_filename open_sans p 7)"
    by blast
  from p have "p = ''/fonts/os''" by (simp add: open_sans_run(2))
  with pa have 1: "path (download_font ?L open_sans ''out'' 7)
      = Some (''out'', font_filename open_sans ''/fonts/os'' 7)" by simp
  then have 2: "font_filename open_sans ''/fonts/os'' 7 = ''Open_Sans_-300_800-italic-07.woff2''"
    by (simp add: open_sans_run(1))
  have 3: "sanitized_family (family open_sans) = claimed_family (family open_sans)"
    by (simp only: open_sans_run(3,4))
  from s 1 2 3 open_sans_run(6-11) show ?thesis by blast
qed

lemma cafe_run:
  "font_filename cafe ''/fonts/cafe.woff2'' 0 = ''Caf'' @ [CHR 0xE9] @ ''-400-normal-00.woff2''"
  "sanitized_family (family cafe) = ''Caf'' @ [CHR 0xE9]"
  "claimed_family (family cafe) = ''Caf_''"
  "CHR 0xE9 \<notin> set ascii_safe"
  "download_font (std_lib no_parser) cafe ''out'' 0 =
     \<lparr>font = cafe, success = True,
      path = Some (''out'', ''Caf'' @ [CHR 0xE9] @ ''-400-normal-00.woff2''), error = None\<rparr>"
  by code_simp+

text \<open>
  A family with a letter outside ASCII keeps it in the file name: the letter is a word
  character, and it is outside \<^verbatim>\<open>[A-Za-z0-9_-]\<close>.
\<close>

theorem family_sanitization_counterexample:
  "download_font (std_lib no_parser) cafe ''out'' 0 =
     \<lparr>font = cafe, success = True,
      path = Some (''out'', ''Caf'' @ [CHR 0xE9] @ ''-400-normal-00.woff2''), error = None\<rparr>
   \<and> family cafe = ''Caf'' @ [CHR 0xE9]
   \<and> CHR 0xE9 \<notin> set ascii_safe
   \<and> sanitized_family (family cafe) = ''Caf'' @ [CHR 0xE9]
   \<and> claimed_family (family cafe) = ''Caf_''
   \<and> sanitized_family (family cafe) \<noteq> claimed_family (family cafe)"
  using cafe_run by (simp add: cafe_def)

end
